theory Spec2Isabelle
  imports Complex_Main "HOL-Library.Sublist"
begin

section \<open>Data model\<close>

text \<open>
  This theory embeds \<^verbatim>\<open>mutovis_control/mppt.py\<close>, the maximum power point tracker.
  Python floats are modelled as real numbers: rounding, infinities and NaN are outside
  the model. A division whose divisor is zero raises \<^verbatim>\<open>ZeroDivisionError\<close>, as it
  does for Python floats.

  A measurement is the four-element list \<^verbatim>\<open>[v, i, tx, status]\<close> the source-measure
  unit returns (unpacked at line 129).
\<close>

record sample =
  voltage :: real
  current :: real
  timestamp :: real
  status :: real

datatype error = AttributeError | IndexError | TypeError | ValueError | ZeroDivisionError

text \<open>
  The attributes of an \<^verbatim>\<open>mppt\<close> object (lines 9 to 16). The class declares
  \<^verbatim>\<open>currentCompliance\<close>; the methods read and write \<^verbatim>\<open>self.current_compliance\<close>,
  an attribute the class does not declare. That attribute is therefore modelled with its
  presence: \<open>None\<close> when the object has no such attribute (reading it raises
  \<^verbatim>\<open>AttributeError\<close>), \<open>Some None\<close> when it holds Python's \<^verbatim>\<open>None\<close>, and
  \<open>Some (Some c)\<close> when it holds the number \<open>c\<close>.
\<close>

record mppt =
  dwell_time :: real
  Voc :: "real option"
  Isc :: "real option"
  Vmpp :: "real option"
  Impp :: "real option"
  currentCompliance :: "real option"
  t0 :: "real option"
  current_compliance :: "real option option"

text \<open>A freshly constructed tracker: the class-level defaults of lines 9 to 16.\<close>

definition new_mppt :: mppt where
  "new_mppt = \<lparr>dwell_time = 10, Voc = None, Isc = None, Vmpp = None, Impp = None,
     currentCompliance = None, t0 = None, current_compliance = None\<rparr>"

section \<open>The instrument and the clock\<close>

text \<open>
  The source-measure unit \<^verbatim>\<open>self.sm\<close> and \<^verbatim>\<open>time.time()\<close> are outside the program.
  The world holds what they will answer (the k-th call of \<^verbatim>\<open>measure\<close> returns
  \<open>readings w k\<close>, the k-th call of \<^verbatim>\<open>measureUntil\<close> returns \<open>bursts w k\<close>, the k-th
  call of \<^verbatim>\<open>time.time()\<close> returns \<open>clock w k\<close>), how many answers were consumed, and
  the log of every instrument call in the order made. Instrument calls are assumed not to
  raise.
\<close>

datatype call =
    SetNPLC real
  | SetupDC bool real real string
  | WriteCmd string
  | SetOutput real
  | Measure
  | MeasureUntil real bool

record world =
  clock :: "nat \<Rightarrow> real"
  ticks :: nat
  readings :: "nat \<Rightarrow> sample"
  n_measure :: nat
  bursts :: "nat \<Rightarrow> sample list"
  n_bursts :: nat
  calls :: "call list"

definition time_time :: "world \<Rightarrow> real \<times> world" where
  "time_time w = (clock w (ticks w), w\<lparr>ticks := Suc (ticks w)\<rparr>)"

definition sm_setNPLC :: "real \<Rightarrow> world \<Rightarrow> world" where
  "sm_setNPLC x w = w\<lparr>calls := calls w @ [SetNPLC x]\<rparr>"

definition sm_setupDC :: "bool \<Rightarrow> real \<Rightarrow> real \<Rightarrow> string \<Rightarrow> world \<Rightarrow> world" where
  "sm_setupDC sourceVoltage compliance setPoint senseRange w =
     w\<lparr>calls := calls w @ [SetupDC sourceVoltage compliance setPoint senseRange]\<rparr>"

definition sm_write :: "string \<Rightarrow> world \<Rightarrow> world" where
  "sm_write cmd w = w\<lparr>calls := calls w @ [WriteCmd cmd]\<rparr>"

definition sm_setOutput :: "real \<Rightarrow> world \<Rightarrow> world" where
  "sm_setOutput v w = w\<lparr>calls := calls w @ [SetOutput v]\<rparr>"

definition sm_measure :: "world \<Rightarrow> sample \<times> world" where
  "sm_measure w =
     (readings w (n_measure w),
      w\<lparr>n_measure := Suc (n_measure w), calls := calls w @ [Measure]\<rparr>)"

text \<open>The flag of \<open>MeasureUntil\<close> records whether a callback was passed as \<^verbatim>\<open>cb\<close>.\<close>

definition sm_measureUntil :: "real \<Rightarrow> bool \<Rightarrow> world \<Rightarrow> sample list \<times> world" where
  "sm_measureUntil t_dwell cb w =
     (bursts w (n_bursts w),
      w\<lparr>n_bursts := Suc (n_bursts w), calls := calls w @ [MeasureUntil t_dwell cb]\<rparr>)"

section \<open>reset (lines 21 to 28)\<close>

text \<open>Every assignment of \<^verbatim>\<open>reset\<close> binds a local name; none goes through \<^verbatim>\<open>self\<close>.\<close>

definition reset :: "mppt \<Rightarrow> mppt" where
  "reset self =
     (let Voc_local = (None :: real option);
          Isc_local = (None :: real option);
          Vmpp_local = (None :: real option);
          Impp_local = (None :: real option);
          current_compliance_local = (None :: real option);
          t0_local = (None :: real option)
      in self)"

section \<open>which_max_power (lines 30 to 42)\<close>

text \<open>
  \<^verbatim>\<open>numpy.argmax\<close> scans from the left and keeps the first index of the largest value;
  on an empty array it raises \<^verbatim>\<open>ValueError\<close>. \<open>argmax_from k bi b xs\<close> is the scan with
  \<open>k\<close> the index of the head of \<open>xs\<close>, \<open>bi\<close> the best index so far and \<open>b\<close> its value.
\<close>

fun argmax_from :: "nat \<Rightarrow> nat \<Rightarrow> real \<Rightarrow> real list \<Rightarrow> nat" where
  "argmax_from k bi b [] = bi"
| "argmax_from k bi b (x # xs) =
     (if b < x then argmax_from (Suc k) k x xs else argmax_from (Suc k) bi b xs)"

definition numpy_argmax :: "real list \<Rightarrow> error + nat" where
  "numpy_argmax p = (case p of [] \<Rightarrow> Inl ValueError | x # xs \<Rightarrow> Inr (argmax_from 1 0 x xs))"

text \<open>The elementwise product \<^verbatim>\<open>v*i*-1\<close> of two arrays of the same length.\<close>

definition power_of :: "real list \<Rightarrow> real list \<Rightarrow> real list" where
  "power_of v i = map2 (\<lambda>a b. a * b * - 1) v i"

text \<open>Returns \<open>(Pmax, Vmpp, Impp, maxIndex)\<close>, in the order of line 42.\<close>

definition which_max_power :: "sample list \<Rightarrow> error + (real \<times> real \<times> real \<times> nat)" where
  "which_max_power vector =
     (let v = map voltage vector;
          i = map current vector;
          p = power_of v i
      in case numpy_argmax p of
           Inl e \<Rightarrow> Inl e
         | Inr maxIndex \<Rightarrow> Inr (p ! maxIndex, v ! maxIndex, i ! maxIndex, maxIndex))"

text \<open>
  The estimate a caller takes from the result of \<open>which_max_power\<close>: its second and third
  components.
\<close>

definition mpp_of_which_max_power :: "sample list \<Rightarrow> error + (real \<times> real)" where
  "mpp_of_which_max_power vector =
     (case which_max_power vector of
        Inl e \<Rightarrow> Inl e
      | Inr (pmax, vm, im, maxIndex) \<Rightarrow> Inr (vm, im))"

section \<open>The exploration scan (lines 117 to 175)\<close>

text \<open>
  The variables of one scan: the next setpoint, the signed step, the two edge flags, the
  two exploration arrays and the deque \<^verbatim>\<open>q\<close> of every measurement of the run.
\<close>

record scan =
  v_set :: real
  dV :: real
  highEdgeTouched :: bool
  lowEdgeTouched :: bool
  i_explore :: "real list"
  v_explore :: "real list"
  q_deque :: "sample list"

definition rad2deg :: "real \<Rightarrow> real" where
  "rad2deg x = x * (180 / pi)"

definition dAngleMax :: real where
  "dAngleMax = 7"

text \<open>
  \<^verbatim>\<open>numpy.rad2deg(numpy.arctan(i/v*Voc/Isc))\<close> (lines 121 and 134). The quotient is
  evaluated from the left: first \<^verbatim>\<open>i/v\<close>, then the division by \<^verbatim>\<open>Isc\<close>.
\<close>

definition angle_of :: "real \<Rightarrow> real \<Rightarrow> real \<Rightarrow> real \<Rightarrow> error + real" where
  "angle_of i v voc isc =
     (if v = 0 then Inl ZeroDivisionError
      else if isc = 0 then Inl ZeroDivisionError
      else Inr (rad2deg (arctan (i / v * voc / isc))))"

text \<open>Lines 138 to 146: the two angle tests, each inverting the step.\<close>

definition angle_edges :: "real \<Rightarrow> scan \<Rightarrow> scan" where
  "angle_edges dAngle s =
     (let s1 = (if dAngle > dAngleMax
                then s\<lparr>highEdgeTouched := True, dV := dV s * - 1\<rparr> else s);
          s2 = (if dAngle < - dAngleMax
                then s1\<lparr>lowEdgeTouched := True, dV := dV s1 * - 1\<rparr> else s1)
      in s2)"

text \<open>
  The body shared by the four boundary branches: set the flag, invert the step, then
  advance the setpoint by the inverted step. The arithmetic of the model is exact, so
  stepping back undoes the step that crossed the boundary; in binary64 the sum
  \<^verbatim>\<open>(v_set + dV) - dV\<close> may differ from \<^verbatim>\<open>v_set\<close> by a rounding error. What is
  proved about the exact value of a setpoint is therefore a fact of exact arithmetic.
\<close>

definition bounce_high :: "scan \<Rightarrow> scan" where
  "bounce_high s =
     s\<lparr>highEdgeTouched := True, dV := dV s * - 1, v_set := v_set s + dV s * - 1\<rparr>"

definition bounce_low :: "scan \<Rightarrow> scan" where
  "bounce_low s =
     s\<lparr>lowEdgeTouched := True, dV := dV s * - 1, v_set := v_set s + dV s * - 1\<rparr>"

text \<open>
  Lines 150 to 175. The two tests of a branch run one after the other, so the second sees
  the step and setpoint the first has left.
\<close>

definition boundary_edges :: "real \<Rightarrow> scan \<Rightarrow> scan" where
  "boundary_edges voc s =
     (if (v_set s > 0 \<and> dV s > 0) \<or> (v_set s < 0 \<and> dV s < 0)
      then (let s1 = (if dV s > 0 \<and> v_set s \<ge> voc then bounce_high s else s);
                s2 = (if dV s1 < 0 \<and> v_set s1 \<le> voc then bounce_low s1 else s1)
            in s2)
      else (let s1 = (if dV s > 0 \<and> v_set s \<ge> 0 then bounce_high s else s);
                s2 = (if dV s1 < 0 \<and> v_set s1 \<le> 0 then bounce_low s1 else s1)
            in s2))"

text \<open>Lines 130 to 133: the measurement joins the deque and the exploration arrays.\<close>

definition record_measurement :: "sample \<Rightarrow> scan \<Rightarrow> scan" where
  "record_measurement measurement s =
     s\<lparr>q_deque := q_deque s @ [measurement],
       i_explore := i_explore s @ [current measurement],
       v_explore := v_explore s @ [voltage measurement]\<rparr>"

text \<open>Line 149.\<close>

definition advance :: "scan \<Rightarrow> scan" where
  "advance s = s\<lparr>v_set := v_set s + dV s\<rparr>"

text \<open>One pass through the body of the inner loop, lines 127 to 175.\<close>

definition explore_step ::
  "real \<Rightarrow> real \<Rightarrow> real \<Rightarrow> scan \<Rightarrow> world \<Rightarrow> (error + scan) \<times> world" where
  "explore_step angleMpp voc isc s w =
     (let w1 = sm_setOutput (v_set s) w;
          (measurement, w2) = sm_measure w1;
          v = voltage measurement;
          i = current measurement;
          s1 = record_measurement measurement s
      in case angle_of i v voc isc of
           Inl e \<Rightarrow> (Inl e, w2)
         | Inr thisAngle \<Rightarrow>
             (let dAngle = angleMpp - thisAngle;
                  s2 = angle_edges dAngle s1;
                  s3 = advance s2;
                  s4 = boundary_edges voc s3
              in (Inr s4, w2)))"

text \<open>
  The inner loop (line 126) may run forever, so it is bounded by fuel: \<open>None\<close> says that
  the loop is still running after \<open>n\<close> passes, \<open>Some (Inr s)\<close> that it has returned with
  the variables \<open>s\<close>, \<open>Some (Inl e)\<close> that it has raised \<open>e\<close>.
\<close>

fun explore_loop ::
  "nat \<Rightarrow> real \<Rightarrow> real \<Rightarrow> real \<Rightarrow> scan \<Rightarrow> world \<Rightarrow> (error + scan) option \<times> world" where
  "explore_loop 0 angleMpp voc isc s w =
     (if highEdgeTouched s \<and> lowEdgeTouched s then (Some (Inr s), w) else (None, w))"
| "explore_loop (Suc n) angleMpp voc isc s w =
     (if highEdgeTouched s \<and> lowEdgeTouched s then (Some (Inr s), w)
      else (case explore_step angleMpp voc isc s w of
              (Inl e, w') \<Rightarrow> (Some (Inl e), w')
            | (Inr s', w') \<Rightarrow> explore_loop n angleMpp voc isc s' w'))"

text \<open>
  Lines 117 to 175: one exploration scan from the estimate \<open>(vmpp, impp)\<close> with the step
  \<open>dv\<close> the previous scan has left.
\<close>

definition exploration_scan ::
  "nat \<Rightarrow> real \<Rightarrow> real \<Rightarrow> real \<Rightarrow> real \<Rightarrow> real \<Rightarrow> sample list \<Rightarrow> world
     \<Rightarrow> (error + scan) option \<times> world" where
  "exploration_scan fuel impp vmpp voc isc dv q w =
     (case angle_of impp vmpp voc isc of
        Inl e \<Rightarrow> (Some (Inl e), w)
      | Inr angleMpp \<Rightarrow>
          explore_loop fuel angleMpp voc isc
            \<lparr>v_set = vmpp, dV = dv, highEdgeTouched = False, lowEdgeTouched = False,
             i_explore = [impp], v_explore = [vmpp], q_deque = q\<rparr> w)"

text \<open>
  What one pass does to the world: one \<^verbatim>\<open>setOutput\<close>, then one \<^verbatim>\<open>measure\<close> that
  consumes a reading.
\<close>

definition after_step :: "scan \<Rightarrow> world \<Rightarrow> world" where
  "after_step s w =
     w\<lparr>n_measure := Suc (n_measure w), calls := calls w @ [SetOutput (v_set s), Measure]\<rparr>"

text \<open>The negated condition of the inner loop.\<close>

definition scan_done :: "scan \<Rightarrow> bool" where
  "scan_done s = (highEdgeTouched s \<and> lowEdgeTouched s)"

text \<open>
  The invariant of the inner loop for a step of magnitude \<open>d\<close>: the step has kept its
  magnitude, and the setpoint is within the two boundaries unless the loop is over.
\<close>

definition scan_inv :: "real \<Rightarrow> real \<Rightarrow> scan \<Rightarrow> bool" where
  "scan_inv voc d s =
     ((dV s = d \<or> dV s = - d) \<and> (scan_done s \<or> (0 \<le> v_set s \<and> v_set s \<le> voc)))"

text \<open>
  A measurement trips the angle criterion when one of the tests of lines 138 and 143
  succeeds on it; \<open>a\<close> is \<^verbatim>\<open>angleMpp\<close>.
\<close>

definition trips :: "real \<Rightarrow> real \<Rightarrow> real \<Rightarrow> sample \<Rightarrow> bool" where
  "trips a voc isc m =
     (case angle_of (current m) (voltage m) voc isc of
        Inl e \<Rightarrow> False
      | Inr th \<Rightarrow> a - th > dAngleMax \<or> a - th < - dAngleMax)"

text \<open>Lines 181 to 184: the new estimate \<open>(Vmpp, Impp)\<close> from the exploration arrays.\<close>

definition select_mpp :: "real list \<Rightarrow> real list \<Rightarrow> error + (real \<times> real)" where
  "select_mpp v_arr i_arr =
     (let p_explore = power_of v_arr i_arr
      in case numpy_argmax p_explore of
           Inl e \<Rightarrow> Inl e
         | Inr maxIndex \<Rightarrow> Inr (v_arr ! maxIndex, i_arr ! maxIndex))"

section \<open>The dwell phase (lines 192 to 214)\<close>

text \<open>
  \<open>Break rt\<close>: line 196 left the loop with run time \<open>rt\<close>. \<open>Dwelt impp dq rt\<close>: the burst
  returned \<open>dq\<close>, \<open>impp\<close> is the new \<^verbatim>\<open>Impp\<close> and \<open>rt\<close> the run time of line 214.
\<close>

datatype dwell_result = Break real | Dwelt real "sample list" real

definition dwell_phase ::
  "real \<Rightarrow> bool \<Rightarrow> real \<Rightarrow> real \<Rightarrow> real \<Rightarrow> world \<Rightarrow> (error + dwell_result) \<times> world" where
  "dwell_phase duration cb t0v dwell_t vmpp w =
     (let (now, w1) = time_time w;
          run_t = now - t0v;
          time_left = duration - run_t
      in if time_left \<le> 0 then (Inr (Break run_t), w1)
         else (let w2 = sm_setOutput vmpp w1;
                   dwell = (if time_left < dwell_t then time_left else dwell_t);
                   (dq, w3) = sm_measureUntil dwell cb w2
               in case dq of
                    [] \<Rightarrow> (Inl IndexError, w3)
                  | _ # _ \<Rightarrow>
                      (let impp = current (last dq);
                           (now2, w4) = time_time w3
                       in (Inr (Dwelt impp dq (now2 - t0v)), w4))))"

section \<open>really_dumb_tracker (lines 94 to 218)\<close>

text \<open>The local variables that live across passes of the outer loop.\<close>

record tracker_vars =
  Impp_l :: "real option"
  Vmpp_l :: "real option"
  dV_l :: real
  q_l :: "sample list"
  run_time :: real

text \<open>
  The outer loop (line 116), bounded by \<open>n\<close> passes, each scan bounded by \<open>k\<close> passes.
  Line 121 raises \<^verbatim>\<open>TypeError\<close> on an estimate that is \<^verbatim>\<open>None\<close>. Line 188 only
  computes a value that is printed, on numpy scalars that do not raise, and is left out.
\<close>

fun tracker_loop ::
  "nat \<Rightarrow> nat \<Rightarrow> real \<Rightarrow> bool \<Rightarrow> real \<Rightarrow> real \<Rightarrow> real option \<Rightarrow> real \<Rightarrow> tracker_vars \<Rightarrow> world
     \<Rightarrow> (error + tracker_vars) option \<times> world" where
  "tracker_loop k 0 duration cb t0v voc isc dwell_t vars w =
     (if run_time vars < duration then (None, w) else (Some (Inr vars), w))"
| "tracker_loop k (Suc n) duration cb t0v voc isc dwell_t vars w =
     (if \<not> run_time vars < duration then (Some (Inr vars), w)
      else (case Impp_l vars of
        None \<Rightarrow> (Some (Inl TypeError), w)
      | Some impp \<Rightarrow> (case Vmpp_l vars of
        None \<Rightarrow> (Some (Inl TypeError), w)
      | Some vmpp \<Rightarrow>
         if vmpp = 0 then (Some (Inl ZeroDivisionError), w)
         else (case isc of
        None \<Rightarrow> (Some (Inl TypeError), w)
      | Some iscv \<Rightarrow>
         (case exploration_scan k impp vmpp voc iscv (dV_l vars) (q_l vars) w of
            (None, w1) \<Rightarrow> (None, w1)
          | (Some (Inl e), w1) \<Rightarrow> (Some (Inl e), w1)
          | (Some (Inr s), w1) \<Rightarrow>
              (case select_mpp (v_explore s) (i_explore s) of
                 Inl e \<Rightarrow> (Some (Inl e), w1)
               | Inr (vmpp', impp') \<Rightarrow>
                   (case dwell_phase duration cb t0v dwell_t vmpp' w1 of
                      (Inl e, w2) \<Rightarrow> (Some (Inl e), w2)
                    | (Inr (Break rt), w2) \<Rightarrow>
                        (Some (Inr \<lparr>Impp_l = Some impp', Vmpp_l = Some vmpp',
                                    dV_l = dV s, q_l = q_deque s, run_time = rt\<rparr>), w2)
                    | (Inr (Dwelt impp'' dq rt), w2) \<Rightarrow>
                        tracker_loop k n duration cb t0v voc isc dwell_t
                          \<lparr>Impp_l = Some impp'', Vmpp_l = Some vmpp', dV_l = dV s,
                           q_l = q_deque s @ dq, run_time = rt\<rparr> w2)))))))"

definition really_dumb_tracker ::
  "nat \<Rightarrow> nat \<Rightarrow> real \<Rightarrow> bool \<Rightarrow> mppt \<Rightarrow> world \<Rightarrow> (error + sample list) option \<times> mppt \<times> world" where
  "really_dumb_tracker k n duration cb self w =
     (case Voc self of
        None \<Rightarrow> (Some (Inl TypeError), self, w)
      | Some voc \<Rightarrow>
          (let dv = voc / 301;
               (now, w1) = time_time w
           in case t0 self of
                None \<Rightarrow> (Some (Inl TypeError), self, w1)
              | Some t0v \<Rightarrow>
                  (case tracker_loop k n duration cb t0v voc (Isc self) (dwell_time self)
                          \<lparr>Impp_l = Impp self, Vmpp_l = Vmpp self, dV_l = dv, q_l = [],
                           run_time = now - t0v\<rparr> w1 of
                     (None, w2) \<Rightarrow> (None, self, w2)
                   | (Some (Inl e), w2) \<Rightarrow> (Some (Inl e), self, w2)
                   | (Some (Inr vars), w2) \<Rightarrow>
                       (Some (Inr (q_l vars)),
                        self\<lparr>Impp := Impp_l vars, Vmpp := Vmpp_l vars\<rparr>, w2))))"

section \<open>launch_tracker (lines 44 to 92)\<close>

text \<open>Lines 54 and 55.\<close>

definition seed_Vmpp :: "real \<Rightarrow> mppt \<Rightarrow> mppt" where
  "seed_Vmpp voc self = (if Vmpp self = None then self\<lparr>Vmpp := Some (0.7 * voc)\<rparr> else self)"

text \<open>Lines 69 to 73.\<close>

definition initial_soak :: "real \<Rightarrow> real" where
  "initial_soak duration = (if duration \<le> 10 then duration * 0.2 else 10)"

text \<open>
  Lines 76 to 81, on the burst \<open>q\<close> of the soak (not empty) and the value \<open>cc\<close> read from
  \<^verbatim>\<open>self.current_compliance\<close>.
\<close>

definition after_soak :: "sample list \<Rightarrow> real option \<Rightarrow> mppt \<Rightarrow> mppt" where
  "after_soak q cc self =
     (let impp = current (last q);
          self1 = self\<lparr>Impp := Some impp\<rparr>;
          self2 = (if cc = None then self1\<lparr>current_compliance := Some (Some \<bar>impp * 2\<bar>)\<rparr>
                   else self1);
          self3 = (if Isc self2 = None then self2\<lparr>Isc := Some (impp * 1.1)\<rparr> else self2)
      in self3)"

text \<open>
  \<open>NPLC\<close> defaults to \<open>- 1\<close> and \<open>cb\<close> says whether a callback was given. The result is
  what the call returns or raises (\<open>None\<close>: still tracking when the fuel ran out), the
  tracker object and the world as the call leaves them.
\<close>

definition launch_tracker ::
  "nat \<Rightarrow> nat \<Rightarrow> real \<Rightarrow> bool \<Rightarrow> real \<Rightarrow> mppt \<Rightarrow> world
     \<Rightarrow> (error + sample list) option \<times> mppt \<times> world" where
  "launch_tracker k n duration cb NPLC self w =
     (case Voc self of
        None \<Rightarrow> (Some (Inr []), self, w)
      | Some voc \<Rightarrow>
          (let (now, w1) = time_time w;
               self1 = self\<lparr>t0 := Some now\<rparr>;
               self2 = seed_Vmpp voc self1
           in case current_compliance self2 of
                None \<Rightarrow> (Some (Inl AttributeError), self2, w1)
              | Some cc \<Rightarrow>
                  (let compliance = (case cc of None \<Rightarrow> 0.04 | Some c \<Rightarrow> c);
                       w2 = (if NPLC \<noteq> - 1 then sm_setNPLC NPLC w1 else w1);
                       w3 = sm_setupDC True compliance
                              (case Vmpp self2 of Some v \<Rightarrow> v | None \<Rightarrow> 0.7 * voc)
                              ''a'' w2;
                       w4 = sm_write '':arm:source immediate'' w3;
                       (q, w5) = sm_measureUntil (initial_soak duration) False w4
                   in case q of
                        [] \<Rightarrow> (Some (Inl IndexError), self2, w5)
                      | _ # _ \<Rightarrow>
                          (let self3 = after_soak q cc self2
                           in case really_dumb_tracker k n duration cb self3 w5 of
                                (None, self4, w6) \<Rightarrow> (None, self4, w6)
                              | (Some (Inl e), self4, w6) \<Rightarrow> (Some (Inl e), self4, w6)
                              | (Some (Inr pptv), self4, w6) \<Rightarrow>
                                  (let (now2, w7) = time_time w6
                                   in (Some (Inr (q @ pptv)), self4, w7))))))"

section \<open>Concrete inputs\<close>

text \<open>
  A world for concrete runs: a minute passes between two readings of the clock, every
  measurement reads 0.42 V and -36 mA, and every burst returns that one sample.
\<close>

definition bench_sample :: sample where
  "bench_sample = \<lparr>voltage = 0.42, current = - 0.036, timestamp = 0, status = 0\<rparr>"

definition bench_world :: world where
  "bench_world = \<lparr>clock = (\<lambda>k. 60 * real k), ticks = 0, readings = (\<lambda>k. bench_sample),
     n_measure = 0, bursts = (\<lambda>k. [bench_sample]), n_bursts = 0, calls = []\<rparr>"

text \<open>The exploration buffer of three samples with powers 14 mW, 15.12 mW and 13.2 mW.\<close>

definition bench_buffer :: "sample list" where
  "bench_buffer =
     [\<lparr>voltage = 0.40, current = - 0.035, timestamp = 0, status = 0\<rparr>,
      \<lparr>voltage = 0.42, current = - 0.036, timestamp = 1, status = 0\<rparr>,
      \<lparr>voltage = 0.44, current = - 0.030, timestamp = 2, status = 0\<rparr>]"

text \<open>
  A steady source near open circuit: every measurement repeats the estimate the scan
  starts from (0.598 V, -2 mA), so the angle never moves.
\<close>

definition steady_world :: world where
  "steady_world = \<lparr>clock = (\<lambda>k. real k),
     ticks = 0,
     readings = (\<lambda>k. \<lparr>voltage = 0.598, current = - 0.002, timestamp = 0, status = 0\<rparr>),
     n_measure = 0, bursts = (\<lambda>k. [bench_sample]), n_bursts = 0, calls = []\<rparr>"

text \<open>A source gone dark: every measurement reads 0.3 V and no current.\<close>

definition dark_world :: world where
  "dark_world = \<lparr>clock = (\<lambda>k. real k),
     ticks = 0,
     readings = (\<lambda>k. \<lparr>voltage = 0.3, current = 0, timestamp = 0, status = 0\<rparr>),
     n_measure = 0, bursts = (\<lambda>k. [bench_sample]), n_bursts = 0, calls = []\<rparr>"

text \<open>An instrument whose voltage reading is 2 mV above an open-circuit voltage of 0.602 V.\<close>

definition noisy_world :: world where
  "noisy_world = \<lparr>clock = (\<lambda>k. real k),
     ticks = 0,
     readings = (\<lambda>k. \<lparr>voltage = 0.604, current = - 0.00302, timestamp = 0, status = 0\<rparr>),
     n_measure = 0, bursts = (\<lambda>k. [bench_sample]), n_bursts = 0, calls = []\<rparr>"

section \<open>Properties of which_max_power\<close>

text \<open>
  The scan, stated on the whole array \<open>ys @ xs\<close> of which \<open>ys\<close> has been read: the result
  indexes a largest element, and nothing before it is as large.
\<close>

lemma argmax_from_spec:
  assumes "bi < length ys" "ys ! bi = b" "\<forall>j < length ys. ys ! j \<le> b"
    "\<forall>j < bi. ys ! j < b"
  shows "(let m = argmax_from (length ys) bi b xs in
           m < length (ys @ xs) \<and> (\<forall>j < length (ys @ xs). (ys @ xs) ! j \<le> (ys @ xs) ! m)
           \<and> (\<forall>j < m. (ys @ xs) ! j < (ys @ xs) ! m))"
  using assms
proof (induction xs arbitrary: ys bi b)
  case Nil
  then show ?case by simp
next
  case (Cons x xs)
  show ?case
  proof (cases "b < x")
    case True
    have 1: "length ys < length (ys @ [x])" by simp
    have 2: "(ys @ [x]) ! length ys = x" by simp
    have 3: "\<forall>j < length (ys @ [x]). (ys @ [x]) ! j \<le> x"
      using Cons.prems(3) True by (auto simp: nth_append less_Suc_eq)
    have 4: "\<forall>j < length ys. (ys @ [x]) ! j < x"
      using Cons.prems(3) True by (auto simp: nth_append intro: le_less_trans)
    from Cons.IH [OF 1 2 3 4] True show ?thesis by simp
  next
    case False
    have 1: "bi < length (ys @ [x])" using Cons.prems(1) by simp
    have 2: "(ys @ [x]) ! bi = b" using Cons.prems(1,2) by (simp add: nth_append)
    have 3: "\<forall>j < length (ys @ [x]). (ys @ [x]) ! j \<le> b"
      using Cons.prems(3) False by (auto simp: nth_append less_Suc_eq)
    have 4: "\<forall>j < bi. (ys @ [x]) ! j < b"
      using Cons.prems(1,4) by (auto simp: nth_append)
    from Cons.IH [OF 1 2 3 4] False show ?thesis by simp
  qed
qed

lemma numpy_argmax_spec:
  assumes "numpy_argmax p = Inr m"
  shows "m < length p \<and> (\<forall>j < length p. p ! j \<le> p ! m) \<and> (\<forall>j < m. p ! j < p ! m)"
proof (cases p)
  case Nil
  with assms show ?thesis by (simp add: numpy_argmax_def)
next
  case (Cons x xs)
  with assms have m: "m = argmax_from (length [x]) 0 x xs"
    by (simp add: numpy_argmax_def)
  have "let m = argmax_from (length [x]) 0 x xs in
           m < length ([x] @ xs) \<and> (\<forall>j < length ([x] @ xs). ([x] @ xs) ! j \<le> ([x] @ xs) ! m)
           \<and> (\<forall>j < m. ([x] @ xs) ! j < ([x] @ xs) ! m)"
    by (rule argmax_from_spec) simp_all
  with m Cons show ?thesis by (simp add: Let_def)
qed

lemma numpy_argmax_lt:
  "numpy_argmax p = Inr m \<Longrightarrow> m < length p"
  using numpy_argmax_spec by blast

lemma numpy_argmax_nonempty:
  "p \<noteq> [] \<Longrightarrow> \<exists>m. numpy_argmax p = Inr m"
  by (cases p) (simp_all add: numpy_argmax_def)

lemma length_power_of:
  "length (power_of v i) = min (length v) (length i)"
  by (simp add: power_of_def)

lemma power_of_samples_nth:
  "k < length vector \<Longrightarrow>
     power_of (map voltage vector) (map current vector) ! k
       = - (voltage (vector ! k) * current (vector ! k))"
  by (simp add: power_of_def)

lemma which_max_power_spec:
  assumes "vector \<noteq> []"
  shows "\<exists>Pmax Vm Im idx.
           which_max_power vector = Inr (Pmax, Vm, Im, idx)
           \<and> idx < length vector
           \<and> Pmax = Max ((\<lambda>e. - (voltage e * current e)) ` set vector)
           \<and> Pmax = - (voltage (vector ! idx) * current (vector ! idx))
           \<and> (\<forall>j < idx. - (voltage (vector ! j) * current (vector ! j)) < Pmax)
           \<and> Vm = voltage (vector ! idx)
           \<and> Im = current (vector ! idx)"
proof -
  let ?p = "power_of (map voltage vector) (map current vector)"
  let ?f = "\<lambda>e. - (voltage e * current e)"
  have len: "length ?p = length vector" by (simp add: length_power_of)
  with assms have "?p \<noteq> []" by auto
  then obtain m where m: "numpy_argmax ?p = Inr m"
    using numpy_argmax_nonempty by blast
  from numpy_argmax_spec [OF m] len
  have lt: "m < length vector"
    and ge: "\<forall>j < length vector. ?p ! j \<le> ?p ! m"
    and first: "\<forall>j < m. ?p ! j < ?p ! m"
    by simp_all
  have pm: "?p ! m = ?f (vector ! m)"
    using lt by (rule power_of_samples_nth)
  have "Max (?f ` set vector) = ?f (vector ! m)"
  proof (rule Max_eqI)
    show "finite (?f ` set vector)" by simp
    show "?f (vector ! m) \<in> ?f ` set vector" using lt by simp
    fix y assume "y \<in> ?f ` set vector"
    then obtain j where j: "j < length vector" "y = ?f (vector ! j)"
      by (auto simp: in_set_conv_nth)
    with ge have "?p ! j \<le> ?p ! m" by simp
    with j pm show "y \<le> ?f (vector ! m)" by (simp add: power_of_samples_nth)
  qed
  moreover have "\<forall>j < m. ?f (vector ! j) < ?f (vector ! m)"
  proof (intro allI impI)
    fix j assume jm: "j < m"
    with first have "?p ! j < ?p ! m" by simp
    moreover from jm lt have "j < length vector" by simp
    ultimately show "?f (vector ! j) < ?f (vector ! m)"
      using pm by (simp add: power_of_samples_nth)
  qed
  moreover have "which_max_power vector
      = Inr (?p ! m, map voltage vector ! m, map current vector ! m, m)"
    using m by (simp add: which_max_power_def Let_def)
  ultimately show ?thesis using lt pm by simp
qed

text \<open>
  C1. For every non-empty vector of samples, \<open>which_max_power\<close> returns
  \<open>(Pmax, Vmpp, Impp, index)\<close> where \<open>Pmax\<close> is the maximum over the vector of
  \<open>-(voltage * current)\<close>, \<open>index\<close> is the position of the first sample that attains it,
  and \<open>Vmpp\<close>, \<open>Impp\<close> are the voltage and current of that sample. The result is a function
  of the vector alone.
\<close>

theorem which_max_power_correct:
  assumes "vector \<noteq> []"
  shows "\<exists>Pmax Vm Im idx.
           which_max_power vector = Inr (Pmax, Vm, Im, idx)
           \<and> idx < length vector
           \<and> Pmax = Max ((\<lambda>e. - (voltage e * current e)) ` set vector)
           \<and> Pmax = - (voltage (vector ! idx) * current (vector ! idx))
           \<and> (\<forall>j < idx. - (voltage (vector ! j) * current (vector ! j)) < Pmax)
           \<and> Vm = voltage (vector ! idx)
           \<and> Im = current (vector ! idx)"
  using assms by (rule which_max_power_spec)

theorem which_max_power_correct_witness:
  "bench_buffer \<noteq> []
   \<and> (\<exists>Pmax Vm Im idx.
           which_max_power bench_buffer = Inr (Pmax, Vm, Im, idx)
           \<and> idx < length bench_buffer
           \<and> Pmax = Max ((\<lambda>e. - (voltage e * current e)) ` set bench_buffer)
           \<and> Pmax = - (voltage (bench_buffer ! idx) * current (bench_buffer ! idx))
           \<and> (\<forall>j < idx. - (voltage (bench_buffer ! j) * current (bench_buffer ! j)) < Pmax)
           \<and> Vm = voltage (bench_buffer ! idx)
           \<and> Im = current (bench_buffer ! idx))
   \<and> which_max_power bench_buffer = Inr (0.01512, 0.42, - 0.036, 1)"
proof -
  have h: "bench_buffer \<noteq> []" by (simp add: bench_buffer_def)
  have v: "which_max_power bench_buffer = Inr (0.01512, 0.42, - 0.036, 1)"
    by (simp add: bench_buffer_def which_max_power_def numpy_argmax_def power_of_def)
  from which_max_power_correct [OF h] h v show ?thesis by blast
qed

section \<open>Properties of reset\<close>

text \<open>
  C10. Calling \<open>reset\<close> on any tracker leaves every attribute of the tracker (\<open>Voc\<close>,
  \<open>Isc\<close>, \<open>Vmpp\<close>, \<open>Impp\<close>, \<open>currentCompliance\<close>, \<open>dwell_time\<close>, \<open>t0\<close>) unchanged: it
  assigns local variables only.
\<close>

theorem reset_is_noop:
  "reset self = self"
  by (simp add: reset_def)

section \<open>Properties of launch_tracker\<close>

text \<open>
  C4. Whenever \<open>Voc\<close> is \<open>None\<close>, \<open>launch_tracker\<close> returns the empty sequence, raises
  nothing, and leaves the tracker and the world as they were: the log of instrument calls
  gains no entry and no answer of the instrument or of the clock is consumed.
\<close>

theorem launch_tracker_Voc_unset:
  assumes "Voc self = None"
  shows "launch_tracker k n duration cb NPLC self w = (Some (Inr []), self, w)"
  using assms by (simp add: launch_tracker_def)

theorem launch_tracker_Voc_unset_witness:
  "Voc new_mppt = None
   \<and> launch_tracker 5 5 30 False (- 1) new_mppt bench_world
       = (Some (Inr []), new_mppt, bench_world)"
proof -
  have h: "Voc new_mppt = None" by (simp add: new_mppt_def)
  from launch_tracker_Voc_unset [OF h] h show ?thesis by simp
qed

text \<open>
  C5. A tracker as constructed, given only \<open>Voc = 0.6\<close>, has no attribute
  \<open>current_compliance\<close>: \<open>launch_tracker\<close> seeds \<open>Vmpp\<close>, then raises
  \<open>AttributeError\<close> at line 57, before any instrument call. No provisional compliance
  of 0.04 A is ever passed to the instrument.
\<close>

theorem launch_tracker_fresh_raises:
  "launch_tracker k n 30 False (- 1) (new_mppt\<lparr>Voc := Some 0.6\<rparr>) w
     = (Some (Inl AttributeError),
        new_mppt\<lparr>Voc := Some 0.6, Vmpp := Some 0.42, t0 := Some (clock w (ticks w))\<rparr>,
        w\<lparr>ticks := Suc (ticks w)\<rparr>)"
  by (simp add: launch_tracker_def new_mppt_def time_time_def seed_Vmpp_def)

section \<open>Properties of the exploration scan\<close>

lemma explore_step_eq:
  "explore_step a voc isc s w =
     (case angle_of (current (readings w (n_measure w))) (voltage (readings w (n_measure w))) voc isc of
        Inl e \<Rightarrow> (Inl e, after_step s w)
      | Inr th \<Rightarrow>
          (Inr (boundary_edges voc (advance (angle_edges (a - th)
                  (record_measurement (readings w (n_measure w)) s)))), after_step s w))"
  by (simp add: explore_step_def sm_setOutput_def sm_measure_def Let_def after_step_def
      split: sum.splits)

lemma angle_edges_dV:
  "dV s = d \<or> dV s = - d \<Longrightarrow> dV (angle_edges x s) = d \<or> dV (angle_edges x s) = - d"
  by (auto simp: angle_edges_def Let_def)

lemma angle_edges_v_set [simp]: "v_set (angle_edges x s) = v_set s"
  by (simp add: angle_edges_def Let_def)

lemma record_measurement_simps [simp]:
  "v_set (record_measurement m s) = v_set s"
  "dV (record_measurement m s) = dV s"
  "highEdgeTouched (record_measurement m s) = highEdgeTouched s"
  "lowEdgeTouched (record_measurement m s) = lowEdgeTouched s"
  by (simp_all add: record_measurement_def)

lemma boundary_step_inv:
  assumes "0 < d" "d \<le> voc" "dV s = d \<or> dV s = - d" "0 \<le> v_set s" "v_set s \<le> voc"
  shows "scan_inv voc d (boundary_edges voc (advance s))"
  using assms
  by (auto simp: scan_inv_def scan_done_def boundary_edges_def bounce_high_def bounce_low_def
      advance_def Let_def)

lemma explore_step_inv:
  assumes "0 < d" "d \<le> voc" "scan_inv voc d s" "\<not> scan_done s"
    "explore_step a voc isc s w = (Inr s', w')"
  shows "scan_inv voc d s'"
proof -
  from assms(3,4) have dv: "dV s = d \<or> dV s = - d" and r: "0 \<le> v_set s" "v_set s \<le> voc"
    by (auto simp: scan_inv_def)
  from assms(5) obtain th where
    s': "s' = boundary_edges voc (advance (angle_edges (a - th)
                  (record_measurement (readings w (n_measure w)) s)))"
    by (auto simp: explore_step_eq split: sum.splits)
  show ?thesis
    unfolding s' using assms(1,2) r dv
    by (intro boundary_step_inv angle_edges_dV) simp_all
qed

lemma scan_arrays_simps [simp]:
  "q_deque (angle_edges x s) = q_deque s"
  "i_explore (angle_edges x s) = i_explore s"
  "v_explore (angle_edges x s) = v_explore s"
  "q_deque (advance s) = q_deque s"
  "i_explore (advance s) = i_explore s"
  "v_explore (advance s) = v_explore s"
  "q_deque (boundary_edges voc s) = q_deque s"
  "i_explore (boundary_edges voc s) = i_explore s"
  "v_explore (boundary_edges voc s) = v_explore s"
  by (simp_all add: angle_edges_def advance_def boundary_edges_def bounce_high_def
      bounce_low_def Let_def)

lemma after_step_simps [simp]:
  "n_measure (after_step s w) = Suc (n_measure w)"
  "calls (after_step s w) = calls w @ [SetOutput (v_set s), Measure]"
  "readings (after_step s w) = readings w"
  "clock (after_step s w) = clock w"
  "ticks (after_step s w) = ticks w"
  "bursts (after_step s w) = bursts w"
  "n_bursts (after_step s w) = n_bursts w"
  by (simp_all add: after_step_def)

lemma explore_step_cases:
  assumes "explore_step a voc isc s w = (r, w')"
  obtains e where "r = Inl e" "w' = after_step s w"
    | th where "angle_of (current (readings w (n_measure w)))
                  (voltage (readings w (n_measure w))) voc isc = Inr th"
        "r = Inr (boundary_edges voc (advance (angle_edges (a - th)
                  (record_measurement (readings w (n_measure w)) s))))"
        "w' = after_step s w"
  using assms by (auto simp: explore_step_eq split: sum.splits)

lemma explore_loop_returns_done:
  "explore_loop n a voc isc s w = (Some (Inr s'), w') \<Longrightarrow> scan_done s'"
proof (induction n arbitrary: s w)
  case 0
  then show ?case by (auto simp: scan_done_def split: if_splits)
next
  case (Suc n)
  show ?case
  proof (cases "highEdgeTouched s \<and> lowEdgeTouched s")
    case True
    with Suc.prems show ?thesis by (auto simp: scan_done_def)
  next
    case False
    obtain r w1 where st: "explore_step a voc isc s w = (r, w1)" by force
    with False Suc.prems show ?thesis
      by (cases r) (auto dest: Suc.IH)
  qed
qed

lemma explore_loop_world:
  assumes "explore_loop n a voc isc s w = (r, w')"
  shows "\<exists>k \<le> n. n_measure w' = n_measure w + k \<and> readings w' = readings w
           \<and> clock w' = clock w \<and> ticks w' = ticks w \<and> bursts w' = bursts w
           \<and> n_bursts w' = n_bursts w
           \<and> (\<forall>s'. r = Some (Inr s') \<longrightarrow>
                 q_deque s' = q_deque s @ map (readings w) [n_measure w ..< n_measure w + k]
               \<and> v_explore s' = v_explore s
                    @ map (\<lambda>j. voltage (readings w j)) [n_measure w ..< n_measure w + k]
               \<and> i_explore s' = i_explore s
                    @ map (\<lambda>j. current (readings w j)) [n_measure w ..< n_measure w + k])"
  using assms
proof (induction n arbitrary: s w)
  case 0
  then show ?case by (auto split: if_splits)
next
  case (Suc n)
  show ?case
  proof (cases "highEdgeTouched s \<and> lowEdgeTouched s")
    case True
    with Suc.prems show ?thesis by auto
  next
    case False
    obtain r1 w1 where st: "explore_step a voc isc s w = (r1, w1)" by force
    from st show ?thesis
    proof (cases rule: explore_step_cases)
      case (1 e)
      with st False Suc.prems have "r = Some (Inl e)" "w' = after_step s w" by auto
      then show ?thesis by (intro exI [of _ 1]) simp
    next
      case (2 th)
      let ?s1 = "boundary_edges voc (advance (angle_edges (a - th)
                  (record_measurement (readings w (n_measure w)) s)))"
      from 2 st False Suc.prems
      have rec: "explore_loop n a voc isc ?s1 (after_step s w) = (r, w')" by auto
      from Suc.IH [OF rec] obtain k where k: "k \<le> n"
        "n_measure w' = Suc (n_measure w) + k" "readings w' = readings w"
        "clock w' = clock w" "ticks w' = ticks w" "bursts w' = bursts w"
        "n_bursts w' = n_bursts w"
        and arr: "\<forall>s'. r = Some (Inr s') \<longrightarrow>
                 q_deque s' = q_deque ?s1 @ map (readings w) [Suc (n_measure w) ..< Suc (n_measure w) + k]
               \<and> v_explore s' = v_explore ?s1
                    @ map (\<lambda>j. voltage (readings w j)) [Suc (n_measure w) ..< Suc (n_measure w) + k]
               \<and> i_explore s' = i_explore ?s1
                    @ map (\<lambda>j. current (readings w j)) [Suc (n_measure w) ..< Suc (n_measure w) + k]"
        by auto
      have up: "[n_measure w ..< Suc (n_measure w + k)]
                  = n_measure w # [Suc (n_measure w) ..< Suc (n_measure w + k)]"
        by (rule upt_conv_Cons) simp
      show ?thesis
        using k arr
        by (intro exI [of _ "Suc k"]) (simp add: record_measurement_def up del: upt_Suc)
    qed
  qed
qed

lemma explore_loop_done:
  "scan_done s \<Longrightarrow> explore_loop n a voc isc s w = (Some (Inr s), w)"
  by (cases n) (simp_all add: scan_done_def)

lemma explore_loop_Suc_step:
  "\<not> scan_done s \<Longrightarrow> explore_step a voc isc s w = (Inr s', w')
     \<Longrightarrow> explore_loop (Suc n) a voc isc s w = explore_loop n a voc isc s' w'"
  by (auto simp: scan_done_def)

lemma explore_loop_Suc_raise:
  "\<not> scan_done s \<Longrightarrow> explore_step a voc isc s w = (Inl e, w')
     \<Longrightarrow> explore_loop (Suc n) a voc isc s w = (Some (Inl e), w')"
  by (auto simp: scan_done_def)

lemma quiet_angle_edges:
  "\<not> trips a voc isc m \<Longrightarrow> angle_of (current m) (voltage m) voc isc = Inr th
     \<Longrightarrow> angle_edges (a - th) s = s"
  by (simp add: trips_def angle_edges_def Let_def)

lemma step_up_inside:
  "0 < d \<Longrightarrow> dV s = d \<Longrightarrow> 0 \<le> v_set s \<Longrightarrow> v_set s + d < voc
     \<Longrightarrow> boundary_edges voc (advance s) = advance s"
  by (simp add: boundary_edges_def advance_def Let_def)

lemma step_up_hit:
  "0 < d \<Longrightarrow> dV s = d \<Longrightarrow> 0 \<le> v_set s \<Longrightarrow> v_set s \<le> voc \<Longrightarrow> voc \<le> v_set s + d
     \<Longrightarrow> scan_done (boundary_edges voc (advance s))"
  by (simp add: boundary_edges_def advance_def bounce_high_def bounce_low_def scan_done_def
      Let_def)

lemma step_down_inside:
  "0 < d \<Longrightarrow> dV s = - d \<Longrightarrow> 0 < v_set s - d
     \<Longrightarrow> boundary_edges voc (advance s) = advance s"
  by (simp add: boundary_edges_def advance_def Let_def)

lemma step_down_hit:
  assumes "0 < d" "d \<le> voc" "dV s = - d" "0 \<le> v_set s" "v_set s \<le> voc" "v_set s - d \<le> 0"
  shows "dV (boundary_edges voc (advance s)) = d
         \<and> 0 \<le> v_set (boundary_edges voc (advance s))
         \<and> v_set (boundary_edges voc (advance s)) \<le> voc"
  using assms
  by (auto simp: boundary_edges_def advance_def bounce_high_def bounce_low_def Let_def)

lemma quiet_step:
  assumes "\<not> trips a voc isc (readings w (n_measure w))"
  shows "(\<exists>e. explore_step a voc isc s w = (Inl e, after_step s w))
       \<or> explore_step a voc isc s w
           = (Inr (boundary_edges voc (advance (record_measurement (readings w (n_measure w)) s))),
              after_step s w)"
  using assms by (auto simp: explore_step_eq quiet_angle_edges split: sum.splits)

lemma walk_up_bounded:
  assumes "0 < d" "d \<le> voc"
  shows "\<forall>j \<ge> n_measure w. \<not> trips a voc isc (readings w j) \<Longrightarrow> dV s = d
     \<Longrightarrow> 0 \<le> v_set s \<Longrightarrow> v_set s \<le> voc \<Longrightarrow> voc - v_set s \<le> real m * d
     \<Longrightarrow> \<exists>n res w'. explore_loop n a voc isc s w = (Some res, w')"
proof (induction m arbitrary: s w)
  case 0
  show ?case
  proof (cases "scan_done s")
    case True
    then show ?thesis using explore_loop_done by blast
  next
    case False
    let ?s1 = "record_measurement (readings w (n_measure w)) s"
    from "0.prems"(1) have q: "\<not> trips a voc isc (readings w (n_measure w))" by simp
    from quiet_step [OF q, of s] show ?thesis
    proof
      assume "\<exists>e. explore_step a voc isc s w = (Inl e, after_step s w)"
      with False show ?thesis using explore_loop_Suc_raise by blast
    next
      assume st: "explore_step a voc isc s w
           = (Inr (boundary_edges voc (advance ?s1)), after_step s w)"
      have "scan_done (boundary_edges voc (advance ?s1))"
        using assms "0.prems" by (intro step_up_hit [of d]) simp_all
      then have "explore_loop 0 a voc isc (boundary_edges voc (advance ?s1)) (after_step s w)
          = (Some (Inr (boundary_edges voc (advance ?s1))), after_step s w)"
        by (rule explore_loop_done)
      with explore_loop_Suc_step [OF False st, of 0] show ?thesis by metis
    qed
  qed
next
  case (Suc m)
  show ?case
  proof (cases "scan_done s")
    case True
    then show ?thesis using explore_loop_done by blast
  next
    case False
    let ?s1 = "record_measurement (readings w (n_measure w)) s"
    from Suc.prems(1) have q: "\<not> trips a voc isc (readings w (n_measure w))" by simp
    from quiet_step [OF q, of s] show ?thesis
    proof
      assume "\<exists>e. explore_step a voc isc s w = (Inl e, after_step s w)"
      with False show ?thesis using explore_loop_Suc_raise by blast
    next
      assume st: "explore_step a voc isc s w
           = (Inr (boundary_edges voc (advance ?s1)), after_step s w)"
      show ?thesis
      proof (cases "voc \<le> v_set s + d")
        case True
        have "scan_done (boundary_edges voc (advance ?s1))"
          using assms Suc.prems True by (intro step_up_hit [of d]) simp_all
        then have "explore_loop 0 a voc isc (boundary_edges voc (advance ?s1)) (after_step s w)
            = (Some (Inr (boundary_edges voc (advance ?s1))), after_step s w)"
          by (rule explore_loop_done)
        with explore_loop_Suc_step [OF False st, of 0] show ?thesis by metis
      next
        case inside: False
        have eq: "boundary_edges voc (advance ?s1) = advance ?s1"
          using assms Suc.prems inside by (intro step_up_inside [of d]) simp_all
        have "\<exists>n res w'. explore_loop n a voc isc (advance ?s1) (after_step s w) = (Some res, w')"
        proof (rule Suc.IH)
          show "\<forall>j \<ge> n_measure (after_step s w). \<not> trips a voc isc (readings (after_step s w) j)"
            using Suc.prems(1) by simp
          show "dV (advance ?s1) = d" using Suc.prems(2) by (simp add: advance_def)
          show "0 \<le> v_set (advance ?s1)" using Suc.prems assms by (simp add: advance_def)
          show "v_set (advance ?s1) \<le> voc" using Suc.prems inside by (simp add: advance_def)
          show "voc - v_set (advance ?s1) \<le> real m * d"
            using Suc.prems by (simp add: advance_def algebra_simps)
        qed
        then obtain n res w' where
          "explore_loop n a voc isc (advance ?s1) (after_step s w) = (Some res, w')" by blast
        with explore_loop_Suc_step [OF False st, of n] eq show ?thesis by metis
      qed
    qed
  qed
qed

lemma walk_up:
  assumes "0 < d" "d \<le> voc" "\<forall>j \<ge> n_measure w. \<not> trips a voc isc (readings w j)"
    "dV s = d" "0 \<le> v_set s" "v_set s \<le> voc"
  shows "\<exists>n res w'. explore_loop n a voc isc s w = (Some res, w')"
proof -
  obtain m :: nat where "(voc - v_set s) / d \<le> real m"
    using real_arch_simple by blast
  with assms(1) have "voc - v_set s \<le> real m * d"
    by (simp add: pos_divide_le_eq)
  with assms show ?thesis by (intro walk_up_bounded [of d voc w a isc s m]) simp_all
qed

lemma walk_down_bounded:
  assumes "0 < d" "d \<le> voc"
  shows "\<forall>j \<ge> n_measure w. \<not> trips a voc isc (readings w j) \<Longrightarrow> dV s = - d
     \<Longrightarrow> 0 \<le> v_set s \<Longrightarrow> v_set s \<le> voc \<Longrightarrow> v_set s \<le> real m * d
     \<Longrightarrow> \<exists>n res w'. explore_loop n a voc isc s w = (Some res, w')"
proof (induction m arbitrary: s w)
  case 0
  show ?case
  proof (cases "scan_done s")
    case True
    then show ?thesis using explore_loop_done by blast
  next
    case False
    let ?s1 = "record_measurement (readings w (n_measure w)) s"
    let ?s2 = "boundary_edges voc (advance ?s1)"
    from "0.prems"(1) have q: "\<not> trips a voc isc (readings w (n_measure w))" by simp
    from quiet_step [OF q, of s] show ?thesis
    proof
      assume "\<exists>e. explore_step a voc isc s w = (Inl e, after_step s w)"
      with False show ?thesis using explore_loop_Suc_raise by blast
    next
      assume st: "explore_step a voc isc s w = (Inr ?s2, after_step s w)"
      have hit: "dV ?s2 = d \<and> 0 \<le> v_set ?s2 \<and> v_set ?s2 \<le> voc"
        using assms "0.prems" by (intro step_down_hit) simp_all
      have "\<exists>n res w'. explore_loop n a voc isc ?s2 (after_step s w) = (Some res, w')"
        using assms hit "0.prems"(1) by (intro walk_up [of d]) simp_all
      then obtain n res w' where
        "explore_loop n a voc isc ?s2 (after_step s w) = (Some res, w')" by blast
      with explore_loop_Suc_step [OF False st, of n] show ?thesis by metis
    qed
  qed
next
  case (Suc m)
  show ?case
  proof (cases "scan_done s")
    case True
    then show ?thesis using explore_loop_done by blast
  next
    case False
    let ?s1 = "record_measurement (readings w (n_measure w)) s"
    let ?s2 = "boundary_edges voc (advance ?s1)"
    from Suc.prems(1) have q: "\<not> trips a voc isc (readings w (n_measure w))" by simp
    from quiet_step [OF q, of s] show ?thesis
    proof
      assume "\<exists>e. explore_step a voc isc s w = (Inl e, after_step s w)"
      with False show ?thesis using explore_loop_Suc_raise by blast
    next
      assume st: "explore_step a voc isc s w = (Inr ?s2, after_step s w)"
      have "\<exists>n res w'. explore_loop n a voc isc ?s2 (after_step s w) = (Some res, w')"
      proof (cases "v_set s - d \<le> 0")
        case True
        have hit: "dV ?s2 = d \<and> 0 \<le> v_set ?s2 \<and> v_set ?s2 \<le> voc"
          using assms Suc.prems True by (intro step_down_hit) simp_all
        show ?thesis
          using assms hit Suc.prems(1) by (intro walk_up [of d]) simp_all
      next
        case inside: False
        have eq: "?s2 = advance ?s1"
          using assms Suc.prems inside by (intro step_down_inside [of d]) simp_all
        have "\<exists>n res w'. explore_loop n a voc isc (advance ?s1) (after_step s w) = (Some res, w')"
        proof (rule Suc.IH)
          show "\<forall>j \<ge> n_measure (after_step s w). \<not> trips a voc isc (readings (after_step s w) j)"
            using Suc.prems(1) by simp
          show "dV (advance ?s1) = - d" using Suc.prems(2) by (simp add: advance_def)
          show "0 \<le> v_set (advance ?s1)" using Suc.prems inside by (simp add: advance_def)
          show "v_set (advance ?s1) \<le> voc" using Suc.prems assms by (simp add: advance_def)
          show "v_set (advance ?s1) \<le> real m * d"
            using Suc.prems by (simp add: advance_def algebra_simps)
        qed
        with eq show ?thesis by simp
      qed
      then obtain n res w' where
        "explore_loop n a voc isc ?s2 (after_step s w) = (Some res, w')" by blast
      with explore_loop_Suc_step [OF False st, of n] show ?thesis by metis
    qed
  qed
qed

lemma walk_down:
  assumes "0 < d" "d \<le> voc" "\<forall>j \<ge> n_measure w. \<not> trips a voc isc (readings w j)"
    "dV s = - d" "0 \<le> v_set s" "v_set s \<le> voc"
  shows "\<exists>n res w'. explore_loop n a voc isc s w = (Some res, w')"
proof -
  obtain m :: nat where "v_set s / d \<le> real m"
    using real_arch_simple by blast
  with assms(1) have "v_set s \<le> real m * d"
    by (simp add: pos_divide_le_eq)
  with assms show ?thesis by (intro walk_down_bounded [of d voc w a isc s m]) simp_all
qed

lemma run_prefix:
  assumes "0 < d" "d \<le> voc"
  shows "scan_inv voc d s \<Longrightarrow>
     (\<exists>n res w'. explore_loop n a voc isc s w = (Some res, w'))
     \<or> (\<exists>s' w'. scan_inv voc d s' \<and> \<not> scan_done s' \<and> n_measure w' = n_measure w + N
           \<and> readings w' = readings w
           \<and> (\<forall>n. explore_loop (N + n) a voc isc s w = explore_loop n a voc isc s' w'))"
proof (induction N arbitrary: s w)
  case 0
  show ?case
  proof (cases "scan_done s")
    case True
    then show ?thesis using explore_loop_done by blast
  next
    case False
    with "0.prems" show ?thesis by auto
  qed
next
  case (Suc N)
  show ?case
  proof (cases "scan_done s")
    case True
    then show ?thesis using explore_loop_done by blast
  next
    case False
    obtain r1 w1 where st: "explore_step a voc isc s w = (r1, w1)" by force
    from st show ?thesis
    proof (cases rule: explore_step_cases)
      case (1 e)
      with st False show ?thesis using explore_loop_Suc_raise by blast
    next
      case (2 th)
      from 2 st obtain s1 where s1: "explore_step a voc isc s w = (Inr s1, after_step s w)"
        by simp
      have inv1: "scan_inv voc d s1"
        using assms Suc.prems False s1 by (rule explore_step_inv)
      from Suc.IH [OF inv1, of "after_step s w"] show ?thesis
      proof
        assume "\<exists>n res w'. explore_loop n a voc isc s1 (after_step s w) = (Some res, w')"
        then obtain n res w' where
          "explore_loop n a voc isc s1 (after_step s w) = (Some res, w')" by blast
        with explore_loop_Suc_step [OF False s1, of n] show ?thesis by metis
      next
        assume "\<exists>s' w'. scan_inv voc d s' \<and> \<not> scan_done s'
           \<and> n_measure w' = n_measure (after_step s w) + N
           \<and> readings w' = readings (after_step s w)
           \<and> (\<forall>n. explore_loop (N + n) a voc isc s1 (after_step s w)
                   = explore_loop n a voc isc s' w')"
        then obtain s' w' where r: "scan_inv voc d s'" "\<not> scan_done s'"
          "n_measure w' = n_measure (after_step s w) + N"
          "readings w' = readings (after_step s w)"
          "\<forall>n. explore_loop (N + n) a voc isc s1 (after_step s w)
                   = explore_loop n a voc isc s' w'"
          by blast
        have "\<forall>n. explore_loop (Suc N + n) a voc isc s w = explore_loop n a voc isc s' w'"
          using r(5) explore_loop_Suc_step [OF False s1] by simp
        with r show ?thesis by (intro disjI2 exI [of _ s'] exI [of _ w']) simp
      qed
    qed
  qed
qed

lemma explore_loop_terminates:
  assumes "0 < d" "d \<le> voc" "scan_inv voc d s"
    "\<forall>j \<ge> N. \<not> trips a voc isc (readings w (n_measure w + j))"
  shows "\<exists>n res w'. explore_loop n a voc isc s w = (Some res, w')"
proof -
  from run_prefix [OF assms(1,2,3), of a isc w N] show ?thesis
  proof
    assume "\<exists>s' w'. scan_inv voc d s' \<and> \<not> scan_done s' \<and> n_measure w' = n_measure w + N
           \<and> readings w' = readings w
           \<and> (\<forall>n. explore_loop (N + n) a voc isc s w = explore_loop n a voc isc s' w')"
    then obtain s' w' where r: "scan_inv voc d s'" "\<not> scan_done s'"
      "n_measure w' = n_measure w + N" "readings w' = readings w"
      "\<forall>n. explore_loop (N + n) a voc isc s w = explore_loop n a voc isc s' w'"
      by blast
    have quiet: "\<forall>j \<ge> n_measure w'. \<not> trips a voc isc (readings w' j)"
    proof (intro allI impI)
      fix j assume "n_measure w' \<le> j"
      with r(3) have "N \<le> j - n_measure w" "n_measure w + (j - n_measure w) = j" by simp_all
      with assms(4) r(4) show "\<not> trips a voc isc (readings w' j)" by metis
    qed
    from r(1,2) have v: "0 \<le> v_set s'" "v_set s' \<le> voc" and dv: "dV s' = d \<or> dV s' = - d"
      by (auto simp: scan_inv_def)
    from dv have "\<exists>n res w''. explore_loop n a voc isc s' w' = (Some res, w'')"
    proof
      assume "dV s' = d"
      with assms(1,2) quiet v show ?thesis by (intro walk_up [of d]) simp_all
    next
      assume "dV s' = - d"
      with assms(1,2) quiet v show ?thesis by (intro walk_down [of d]) simp_all
    qed
    then obtain n res w'' where "explore_loop n a voc isc s' w' = (Some res, w'')" by blast
    with r(5) have "explore_loop (N + n) a voc isc s w = (Some res, w'')" by simp
    then show ?thesis by blast
  qed
qed

lemma exploration_scan_start_inv:
  assumes "0 < voc" "0 \<le> vmpp" "vmpp \<le> voc" "dv = voc / 301 \<or> dv = - (voc / 301)"
  shows "scan_inv voc (voc / 301)
     \<lparr>v_set = vmpp, dV = dv, highEdgeTouched = False, lowEdgeTouched = False,
      i_explore = [impp], v_explore = [vmpp], q_deque = q\<rparr>"
  using assms by (auto simp: scan_inv_def)

lemma step_size_bounds: "0 < voc \<Longrightarrow> 0 < voc / 301 \<and> voc / 301 \<le> (voc::real)"
  by simp

lemma rad2deg_arctan_one: "rad2deg (arctan 1) = 45"
  by (simp add: rad2deg_def arctan_one)

text \<open>
  The scan in the dark: the estimate sits at half of \<open>Voc\<close> and half of \<open>Isc\<close> (45 degrees),
  every reading has no current (0 degrees), so every pass sets the high edge and inverts
  the step: the setpoint alternates between 0.301 V and 0.299 V and the low edge is never
  touched.
\<close>

lemma dark_loop_runs:
  assumes "readings w = (\<lambda>k. \<lparr>voltage = 0.3, current = 0, timestamp = 0, status = 0\<rparr>)"
    "\<not> lowEdgeTouched s"
    "(v_set s = 0.301 \<and> dV s = 0.002) \<or> (v_set s = 0.299 \<and> dV s = - 0.002)"
  shows "fst (explore_loop n 45 0.602 (- 0.04) s w) = None"
  using assms
proof (induction n arbitrary: s w)
  case 0
  then show ?case by simp
next
  case (Suc n)
  let ?m = "\<lparr>voltage = 0.3, current = 0, timestamp = 0, status = 0\<rparr> :: sample"
  let ?s1 = "boundary_edges 0.602 (advance (angle_edges (45 - 0) (record_measurement ?m s)))"
  have th: "angle_of (current ?m) (voltage ?m) 0.602 (- 0.04) = Inr 0"
    by (simp add: angle_of_def rad2deg_def)
  have st: "explore_step 45 0.602 (- 0.04) s w = (Inr ?s1, after_step s w)"
    using Suc.prems(1) th by (simp add: explore_step_eq)
  have low: "\<not> lowEdgeTouched ?s1"
    using Suc.prems(2,3)
    by (auto simp: angle_edges_def advance_def boundary_edges_def bounce_high_def bounce_low_def
        dAngleMax_def record_measurement_def Let_def)
  have pos: "(v_set ?s1 = 0.301 \<and> dV ?s1 = 0.002) \<or> (v_set ?s1 = 0.299 \<and> dV ?s1 = - 0.002)"
    using Suc.prems(2,3)
    by (auto simp: angle_edges_def advance_def boundary_edges_def bounce_high_def bounce_low_def
        dAngleMax_def record_measurement_def Let_def)
  have "fst (explore_loop n 45 0.602 (- 0.04) ?s1 (after_step s w)) = None"
    using Suc.prems(1) low pos by (intro Suc.IH) simp_all
  with st Suc.prems(2) show ?case by simp
qed

text \<open>
  C2 (amended). For every scan that starts with \<open>Voc > 0\<close>, \<open>Isc\<close> nonzero, \<open>Vmpp\<close> in
  \<open>(0, Voc]\<close> and a step of magnitude \<open>Voc / 301\<close>, and for every sequence of measurements
  of which only finitely many trip the angle criterion (none from the \<open>N\<close>-th on), the
  inner loop ends after finitely many passes, by returning or by raising on a reading of
  zero volts; and whenever it returns, both \<open>highEdgeTouched\<close> and \<open>lowEdgeTouched\<close> are
  true. Measurements that trip the angle criterion forever can keep the loop running
  forever.
\<close>

theorem exploration_scan_terminates:
  assumes "0 < voc" "isc \<noteq> 0" "0 < vmpp" "vmpp \<le> voc"
    "dv = voc / 301 \<or> dv = - (voc / 301)"
    "\<forall>j \<ge> N. \<not> trips (rad2deg (arctan (impp / vmpp * voc / isc))) voc isc
                  (readings w (n_measure w + j))"
  shows "(\<exists>n res w'. exploration_scan n impp vmpp voc isc dv q w = (Some res, w'))
       \<and> (\<forall>n s w'. exploration_scan n impp vmpp voc isc dv q w = (Some (Inr s), w')
             \<longrightarrow> highEdgeTouched s \<and> lowEdgeTouched s)"
proof -
  let ?a = "rad2deg (arctan (impp / vmpp * voc / isc))"
  let ?s0 = "\<lparr>v_set = vmpp, dV = dv, highEdgeTouched = False, lowEdgeTouched = False,
      i_explore = [impp], v_explore = [vmpp], q_deque = q\<rparr>"
  have a: "angle_of impp vmpp voc isc = Inr ?a"
    using assms(2,3) by (simp add: angle_of_def)
  then have scan: "exploration_scan n impp vmpp voc isc dv q w = explore_loop n ?a voc isc ?s0 w"
    for n by (simp add: exploration_scan_def)
  have inv: "scan_inv voc (voc / 301) ?s0"
    using assms(1,3,4,5) by (intro exploration_scan_start_inv) simp_all
  from step_size_bounds [OF assms(1)] have d: "0 < voc / 301" "voc / 301 \<le> voc" by simp_all
  have "\<exists>n res w'. explore_loop n ?a voc isc ?s0 w = (Some res, w')"
    using d inv assms(6) by (rule explore_loop_terminates)
  moreover have "highEdgeTouched s \<and> lowEdgeTouched s"
    if "explore_loop n ?a voc isc ?s0 w = (Some (Inr s), w')" for n s w'
    using explore_loop_returns_done [OF that] by (simp add: scan_done_def)
  ultimately show ?thesis unfolding scan by blast
qed

theorem exploration_scan_terminates_witness:
  "(0::real) < 0.602 \<and> (- 0.04::real) \<noteq> 0 \<and> (0::real) < 0.598 \<and> (0.598::real) \<le> 0.602
   \<and> (\<exists>n res w'. exploration_scan n (- 0.002) 0.598 0.602 (- 0.04) (0.602 / 301) []
          steady_world = (Some res, w'))
   \<and> (\<exists>s w'. exploration_scan 2 (- 0.002) 0.598 0.602 (- 0.04) (0.602 / 301) []
          steady_world = (Some (Inr s), w') \<and> highEdgeTouched s \<and> lowEdgeTouched s)"
proof -
  have q: "\<forall>j \<ge> 0. \<not> trips (rad2deg (arctan (- 0.002 / 0.598 * 0.602 / (- 0.04)))) 0.602 (- 0.04)
                  (readings steady_world (n_measure steady_world + j))"
    by (simp add: trips_def angle_of_def steady_world_def dAngleMax_def)
  have run: "\<exists>s w'. exploration_scan 2 (- 0.002) 0.598 0.602 (- 0.04) (0.602 / 301) []
          steady_world = (Some (Inr s), w')"
    by (simp add: exploration_scan_def angle_of_def steady_world_def numeral_2_eq_2
        explore_step_eq record_measurement_def angle_edges_def advance_def boundary_edges_def
        bounce_high_def bounce_low_def dAngleMax_def after_step_def Let_def)
  from exploration_scan_terminates [where voc = "0.602" and isc = "- 0.04" and vmpp = "0.598"
      and dv = "0.602 / 301" and N = 0 and impp = "- 0.002" and w = steady_world and q = "[]"] q run
  show ?thesis by force
qed

theorem exploration_scan_runs_forever:
  "(0::real) < 0.602 \<and> (- 0.04::real) \<noteq> 0 \<and> (0::real) < 0.301 \<and> (0.301::real) \<le> 0.602
   \<and> (\<forall>n. fst (exploration_scan n (- 0.02) 0.301 0.602 (- 0.04) (0.602 / 301) [] dark_world)
          = None)"
proof -
  have a: "angle_of (- 0.02) 0.301 0.602 (- 0.04) = Inr 45"
    by (simp add: angle_of_def rad2deg_arctan_one)
  have "fst (exploration_scan n (- 0.02) 0.301 0.602 (- 0.04) (0.602 / 301) [] dark_world) = None"
    for n
  proof -
    have "fst (explore_loop n 45 0.602 (- 0.04)
            \<lparr>v_set = 0.301, dV = 0.602 / 301, highEdgeTouched = False, lowEdgeTouched = False,
             i_explore = [- 0.02], v_explore = [0.301], q_deque = []\<rparr> dark_world) = None"
      by (rule dark_loop_runs) (simp_all add: dark_world_def)
    then show ?thesis by (simp only: exploration_scan_def a sum.case)
  qed
  then show ?thesis by simp
qed

section \<open>The estimate of a scan\<close>

lemma select_mpp_eq_which_max_power:
  "select_mpp (map voltage vector) (map current vector) = mpp_of_which_max_power vector"
  by (simp add: select_mpp_def mpp_of_which_max_power_def which_max_power_def Let_def
      split: sum.splits)

lemma select_mpp_member:
  assumes "length v_arr = length i_arr" "v_arr \<noteq> []"
  shows "\<exists>m < length v_arr. select_mpp v_arr i_arr = Inr (v_arr ! m, i_arr ! m)"
proof -
  have len: "length (power_of v_arr i_arr) = length v_arr"
    using assms(1) by (simp add: length_power_of)
  with assms(2) have "power_of v_arr i_arr \<noteq> []" by auto
  then obtain m where m: "numpy_argmax (power_of v_arr i_arr) = Inr m"
    using numpy_argmax_nonempty by blast
  from numpy_argmax_lt [OF m] len have "m < length v_arr" by simp
  with m show ?thesis by (auto simp: select_mpp_def)
qed

lemma exploration_scan_arrays:
  assumes "exploration_scan n impp vmpp voc isc dv q w = (Some (Inr s), w')"
  shows "n_measure w \<le> n_measure w'
       \<and> q_deque s = q @ map (readings w) [n_measure w ..< n_measure w']
       \<and> v_explore s = vmpp # map (\<lambda>j. voltage (readings w j)) [n_measure w ..< n_measure w']
       \<and> i_explore s = impp # map (\<lambda>j. current (readings w j)) [n_measure w ..< n_measure w']"
proof (cases "angle_of impp vmpp voc isc")
  case (Inl e)
  with assms show ?thesis by (simp add: exploration_scan_def)
next
  case (Inr a)
  with assms have "explore_loop n a voc isc
            \<lparr>v_set = vmpp, dV = dv, highEdgeTouched = False, lowEdgeTouched = False,
             i_explore = [impp], v_explore = [vmpp], q_deque = q\<rparr> w = (Some (Inr s), w')"
    by (simp add: exploration_scan_def)
  from explore_loop_world [OF this] show ?thesis by auto
qed

text \<open>
  C3 (amended). For every exploration scan that starts with \<open>Voc > 0\<close> and \<open>Vmpp\<close> in
  \<open>[0, Voc]\<close> and returns, the estimate it produces is the starting point
  \<open>(Vmpp, Impp)\<close> or the measured voltage and current of one of the samples of the scan.
  So the new \<open>Vmpp\<close> lies within \<open>[0, Voc]\<close> whenever every voltage measured during the
  scan does. The estimate is read from the array of measured voltages (line 183), not from
  the setpoints, so this holds whatever the arithmetic of the walk does to the setpoints.
\<close>

theorem exploration_scan_estimate_measured:
  assumes "0 < voc" "0 \<le> vmpp" "vmpp \<le> voc"
    "exploration_scan n impp vmpp voc isc dv q w = (Some (Inr s), w')"
  shows "\<exists>vm im. select_mpp (v_explore s) (i_explore s) = Inr (vm, im)
       \<and> ((vm = vmpp \<and> im = impp)
           \<or> (\<exists>j. n_measure w \<le> j \<and> j < n_measure w'
                  \<and> vm = voltage (readings w j) \<and> im = current (readings w j)))
       \<and> ((\<forall>j. n_measure w \<le> j \<and> j < n_measure w'
                 \<longrightarrow> 0 \<le> voltage (readings w j) \<and> voltage (readings w j) \<le> voc)
             \<longrightarrow> 0 \<le> vm \<and> vm \<le> voc)"
proof -
  let ?js = "[n_measure w ..< n_measure w']"
  from exploration_scan_arrays [OF assms(4)]
  have v: "v_explore s = vmpp # map (\<lambda>j. voltage (readings w j)) ?js"
    and i: "i_explore s = impp # map (\<lambda>j. current (readings w j)) ?js"
    by simp_all
  then have "length (v_explore s) = length (i_explore s)" "v_explore s \<noteq> []" by simp_all
  from select_mpp_member [OF this] obtain m where m: "m < length (v_explore s)"
    "select_mpp (v_explore s) (i_explore s) = Inr (v_explore s ! m, i_explore s ! m)"
    by blast
  show ?thesis
  proof (cases m)
    case 0
    then have "v_explore s ! m = vmpp" "i_explore s ! m = impp" using v i by simp_all
    with m(2) assms(2,3) show ?thesis by simp
  next
    case (Suc k)
    with m(1) v have k: "k < n_measure w' - n_measure w" by simp
    then have at: "v_explore s ! m = voltage (readings w (n_measure w + k))"
      "i_explore s ! m = current (readings w (n_measure w + k))"
      using Suc v i by simp_all
    from k have j: "n_measure w \<le> n_measure w + k" "n_measure w + k < n_measure w'" by simp_all
    have sel: "select_mpp (v_explore s) (i_explore s)
        = Inr (voltage (readings w (n_measure w + k)), current (readings w (n_measure w + k)))"
      using m(2) at by simp
    show ?thesis
      unfolding sel using j by blast
  qed
qed

lemmas scan_eval = exploration_scan_def angle_of_def explore_step_eq record_measurement_def
  angle_edges_def advance_def boundary_edges_def bounce_high_def bounce_low_def dAngleMax_def
  after_step_def Let_def

lemma steady_scan_run:
  "exploration_scan 2 (- 0.002) 0.598 0.602 (- 0.04) (0.602 / 301) [] steady_world
     = (Some (Inr \<lparr>v_set = 0.602, dV = 0.002, highEdgeTouched = True, lowEdgeTouched = True,
                   i_explore = [- 0.002, - 0.002, - 0.002],
                   v_explore = [0.598, 0.598, 0.598],
                   q_deque = [\<lparr>voltage = 0.598, current = - 0.002, timestamp = 0, status = 0\<rparr>,
                              \<lparr>voltage = 0.598, current = - 0.002, timestamp = 0, status = 0\<rparr>]\<rparr>),
        steady_world\<lparr>n_measure := 2,
          calls := [SetOutput 0.598, Measure, SetOutput 0.6, Measure]\<rparr>)"
  by (simp add: scan_eval steady_world_def numeral_2_eq_2)

lemma noisy_scan_run:
  "exploration_scan 1 (- 0.003) 0.6 0.602 (- 0.04) (0.602 / 301) [] noisy_world
     = (Some (Inr \<lparr>v_set = 0.602, dV = 0.002, highEdgeTouched = True, lowEdgeTouched = True,
                   i_explore = [- 0.003, - 0.00302],
                   v_explore = [0.6, 0.604],
                   q_deque = [\<lparr>voltage = 0.604, current = - 0.00302, timestamp = 0, status = 0\<rparr>]\<rparr>),
        noisy_world\<lparr>n_measure := 1, calls := [SetOutput 0.6, Measure]\<rparr>)"
  by (simp add: scan_eval noisy_world_def)

theorem exploration_scan_estimate_measured_witness:
  "(0::real) < 0.602 \<and> (0::real) \<le> 0.598 \<and> (0.598::real) \<le> 0.602
   \<and> exploration_scan 2 (- 0.002) 0.598 0.602 (- 0.04) (0.602 / 301) [] steady_world
     = (Some (Inr \<lparr>v_set = 0.602, dV = 0.002, highEdgeTouched = True, lowEdgeTouched = True,
                   i_explore = [- 0.002, - 0.002, - 0.002],
                   v_explore = [0.598, 0.598, 0.598],
                   q_deque = [\<lparr>voltage = 0.598, current = - 0.002, timestamp = 0, status = 0\<rparr>,
                              \<lparr>voltage = 0.598, current = - 0.002, timestamp = 0, status = 0\<rparr>]\<rparr>),
        steady_world\<lparr>n_measure := 2,
          calls := [SetOutput 0.598, Measure, SetOutput 0.6, Measure]\<rparr>)
   \<and> (\<exists>vm im. select_mpp [0.598, 0.598, 0.598] [- 0.002, - 0.002, - 0.002] = Inr (vm, im)
          \<and> 0 \<le> vm \<and> vm \<le> 0.602)
   \<and> select_mpp [0.598, 0.598, 0.598] [- 0.002, - 0.002, - 0.002] = Inr (0.598, - 0.002)"
proof -
  have h: "(0::real) < 0.602" "(0::real) \<le> 0.598" "(0.598::real) \<le> 0.602"
    by simp_all
  note run = steady_scan_run
  from exploration_scan_estimate_measured [OF h run]
  have "\<exists>vm im. select_mpp [0.598, 0.598, 0.598] [- 0.002, - 0.002, - 0.002] = Inr (vm, im)
          \<and> 0 \<le> vm \<and> vm \<le> 0.602"
    by (auto simp: steady_world_def)
  moreover have "select_mpp [0.598, 0.598, 0.598] [- 0.002, - 0.002, - 0.002]
      = Inr (0.598, - 0.002)"
    by (simp add: select_mpp_def power_of_def numpy_argmax_def)
  ultimately show ?thesis using h run by blast
qed

theorem exploration_scan_estimate_leaves_range:
  "(0::real) < 0.602 \<and> (0::real) \<le> 0.6 \<and> (0.6::real) \<le> 0.602
   \<and> (\<exists>s w'. exploration_scan 1 (- 0.003) 0.6 0.602 (- 0.04) (0.602 / 301) [] noisy_world
                = (Some (Inr s), w')
          \<and> select_mpp (v_explore s) (i_explore s) = Inr (0.604, - 0.00302))
   \<and> \<not> ((0.604::real) \<le> 0.602)"
  unfolding noisy_scan_run
  by (simp add: select_mpp_def power_of_def numpy_argmax_def)

text \<open>
  C6. For every completed exploration scan, the exploration arrays hold the starting
  point (the previous estimate) followed by every sample visited during the scan, the
  inline selection of lines 181 to 184 equals \<open>which_max_power\<close> applied to that sequence
  (its \<open>Vmpp\<close> and \<open>Impp\<close> components), and the new estimate is the voltage and current of
  the sample of maximum power that comes first.
\<close>

theorem scan_selection_is_which_max_power:
  assumes "exploration_scan n impp vmpp voc isc dv q w = (Some (Inr s), w')"
  shows "(let visited = map (readings w) [n_measure w ..< n_measure w'];
              vector = \<lparr>voltage = vmpp, current = impp, timestamp = tx, status = st\<rparr> # visited
          in q_deque s = q @ visited
           \<and> v_explore s = map voltage vector
           \<and> i_explore s = map current vector
           \<and> select_mpp (v_explore s) (i_explore s) = mpp_of_which_max_power vector
           \<and> (\<exists>Pmax vm im idx.
                 which_max_power vector = Inr (Pmax, vm, im, idx)
               \<and> select_mpp (v_explore s) (i_explore s) = Inr (vm, im)
               \<and> idx < length vector
               \<and> Pmax = Max ((\<lambda>e. - (voltage e * current e)) ` set vector)
               \<and> vm = voltage (vector ! idx)
               \<and> im = current (vector ! idx)))"
proof -
  let ?visited = "map (readings w) [n_measure w ..< n_measure w']"
  let ?vector = "\<lparr>voltage = vmpp, current = impp, timestamp = tx, status = st\<rparr> # ?visited"
  from exploration_scan_arrays [OF assms]
  have q: "q_deque s = q @ ?visited"
    and v: "v_explore s = map voltage ?vector"
    and i: "i_explore s = map current ?vector"
    by (simp_all add: comp_def)
  have sel: "select_mpp (v_explore s) (i_explore s) = mpp_of_which_max_power ?vector"
    unfolding v i by (rule select_mpp_eq_which_max_power)
  have "?vector \<noteq> []" by simp
  from which_max_power_spec [OF this] obtain Pmax vm im idx where
    w: "which_max_power ?vector = Inr (Pmax, vm, im, idx)" "idx < length ?vector"
      "Pmax = Max ((\<lambda>e. - (voltage e * current e)) ` set ?vector)"
      "vm = voltage (?vector ! idx)" "im = current (?vector ! idx)"
    by blast
  from sel w(1) have "select_mpp (v_explore s) (i_explore s) = Inr (vm, im)"
    by (simp add: mpp_of_which_max_power_def)
  with q v i sel w show ?thesis unfolding Let_def by blast
qed

theorem scan_selection_is_which_max_power_witness:
  "exploration_scan 1 (- 0.003) 0.6 0.602 (- 0.04) (0.602 / 301) [] noisy_world
     = (Some (Inr \<lparr>v_set = 0.602, dV = 0.002, highEdgeTouched = True, lowEdgeTouched = True,
                   i_explore = [- 0.003, - 0.00302],
                   v_explore = [0.6, 0.604],
                   q_deque = [\<lparr>voltage = 0.604, current = - 0.00302, timestamp = 0, status = 0\<rparr>]\<rparr>),
        noisy_world\<lparr>n_measure := 1, calls := [SetOutput 0.6, Measure]\<rparr>)
   \<and> select_mpp [0.6, 0.604] [- 0.003, - 0.00302]
       = mpp_of_which_max_power
           [\<lparr>voltage = 0.6, current = - 0.003, timestamp = 0, status = 0\<rparr>,
            \<lparr>voltage = 0.604, current = - 0.00302, timestamp = 0, status = 0\<rparr>]
   \<and> mpp_of_which_max_power
           [\<lparr>voltage = 0.6, current = - 0.003, timestamp = 0, status = 0\<rparr>,
            \<lparr>voltage = 0.604, current = - 0.00302, timestamp = 0, status = 0\<rparr>]
       = Inr (0.604, - 0.00302)"
proof -
  note run = noisy_scan_run
  from scan_selection_is_which_max_power [OF run, of 0 0]
  have "select_mpp [0.6, 0.604] [- 0.003, - 0.00302]
       = mpp_of_which_max_power
           [\<lparr>voltage = 0.6, current = - 0.003, timestamp = 0, status = 0\<rparr>,
            \<lparr>voltage = 0.604, current = - 0.00302, timestamp = 0, status = 0\<rparr>]"
    by (simp add: Let_def noisy_world_def)
  moreover have "mpp_of_which_max_power
           [\<lparr>voltage = 0.6, current = - 0.003, timestamp = 0, status = 0\<rparr>,
            \<lparr>voltage = 0.604, current = - 0.00302, timestamp = 0, status = 0\<rparr>]
       = Inr (0.604, - 0.00302)"
    by (simp add: mpp_of_which_max_power_def which_max_power_def power_of_def numpy_argmax_def)
  ultimately show ?thesis using run by simp
qed

section \<open>The log of a run\<close>

lemma explore_loop_prefix:
  "explore_loop n a voc isc s w = (r, w') \<Longrightarrow> prefix (calls w) (calls w')"
proof (induction n arbitrary: s w)
  case 0
  then show ?case by (auto split: if_splits)
next
  case (Suc n)
  show ?case
  proof (cases "highEdgeTouched s \<and> lowEdgeTouched s")
    case True
    with Suc.prems show ?thesis by auto
  next
    case False
    obtain r1 w1 where st: "explore_step a voc isc s w = (r1, w1)" by force
    from st show ?thesis
    proof (cases rule: explore_step_cases)
      case (1 e)
      with st False Suc.prems have "w' = after_step s w" by auto
      then show ?thesis by simp
    next
      case (2 th)
      with st False Suc.prems obtain s1 where
        "explore_loop n a voc isc s1 (after_step s w) = (r, w')" by auto
      from Suc.IH [OF this] have "prefix (calls w @ [SetOutput (v_set s), Measure]) (calls w')"
        by simp
      then show ?thesis using append_prefixD by blast
    qed
  qed
qed

lemma exploration_scan_prefix:
  "exploration_scan n impp vmpp voc isc dv q w = (r, w') \<Longrightarrow> prefix (calls w) (calls w')"
  by (auto simp: exploration_scan_def split: sum.splits dest: explore_loop_prefix)

lemma dwell_phase_calls:
  "dwell_phase duration cb t0v dwell_t vmpp w = (r, w') \<Longrightarrow>
     calls w' = calls w
       @ (if duration - (clock w (ticks w) - t0v) \<le> 0 then []
          else [SetOutput vmpp,
                MeasureUntil (min dwell_t (duration - (clock w (ticks w) - t0v))) cb])"
  by (auto simp: dwell_phase_def time_time_def sm_setOutput_def sm_measureUntil_def Let_def
      min_def split: list.splits if_splits)

lemma dwell_phase_prefix:
  "dwell_phase duration cb t0v dwell_t vmpp w = (r, w') \<Longrightarrow> prefix (calls w) (calls w')"
  by (drule dwell_phase_calls) simp

lemma tracker_loop_prefix:
  "tracker_loop k n duration cb t0v voc isc dwell_t vars w = (r, w')
     \<Longrightarrow> prefix (calls w) (calls w')"
proof (induction n arbitrary: vars w)
  case 0
  then show ?case by (auto split: if_splits)
next
  case (Suc n)
  note step = Suc.prems [unfolded tracker_loop.simps]
  show ?case
  proof (cases "run_time vars < duration")
    case False
    with step show ?thesis by auto
  next
    case True
    show ?thesis
    proof (cases "\<exists>impp vmpp iscv. Impp_l vars = Some impp \<and> Vmpp_l vars = Some vmpp
                     \<and> vmpp \<noteq> 0 \<and> isc = Some iscv")
      case False
      with step True show ?thesis by (auto split: option.splits if_splits)
    next
      case ex: True
      then obtain impp vmpp iscv where v: "Impp_l vars = Some impp" "Vmpp_l vars = Some vmpp"
        "vmpp \<noteq> 0" "isc = Some iscv" by blast
      obtain r1 w1 where sc: "exploration_scan k impp vmpp voc iscv (dV_l vars) (q_l vars) w
          = (r1, w1)" by force
      from exploration_scan_prefix [OF sc] have p1: "prefix (calls w) (calls w1)" .
      show ?thesis
      proof (cases r1)
        case None
        with step True v sc have "w' = w1" by simp
        with p1 show ?thesis by simp
      next
        case (Some res)
        show ?thesis
        proof (cases res)
          case (Inl e)
          with step True v sc Some have "w' = w1" by simp
          with p1 show ?thesis by simp
        next
          case (Inr s)
          show ?thesis
          proof (cases "select_mpp (v_explore s) (i_explore s)")
            case (Inl e)
            with step True v sc Some Inr have "w' = w1" by simp
            with p1 show ?thesis by simp
          next
            case sel: (Inr est)
            obtain vm im where est: "est = (vm, im)" by force
            obtain r2 w2 where dw: "dwell_phase duration cb t0v dwell_t vm w1 = (r2, w2)"
              by force
            from dwell_phase_prefix [OF dw] p1 have p2: "prefix (calls w) (calls w2)"
              by (rule prefix_order.trans [rotated])
            show ?thesis
            proof (cases r2)
              case (Inl e)
              with step True v sc Some Inr sel est dw have "w' = w2" by simp
              with p2 show ?thesis by simp
            next
              case dres: (Inr dr)
              show ?thesis
              proof (cases dr)
                case (Break rt)
                with step True v sc Some Inr sel est dw dres have "w' = w2" by simp
                with p2 show ?thesis by simp
              next
                case (Dwelt im2 dq rt)
                with step True v sc Some Inr sel est dw dres
                have "tracker_loop k n duration cb t0v voc isc dwell_t
                          \<lparr>Impp_l = Some im2, Vmpp_l = Some vm, dV_l = dV s,
                           q_l = q_deque s @ dq, run_time = rt\<rparr> w2 = (r, w')"
                  by simp
                from Suc.IH [OF this] p2 show ?thesis
                  by (rule prefix_order.trans [rotated])
              qed
            qed
          qed
        qed
      qed
    qed
  qed
qed

lemma really_dumb_tracker_prefix:
  "really_dumb_tracker k n duration cb self w = (r, self', w')
     \<Longrightarrow> prefix (calls w) (calls w')"
proof (cases "Voc self")
  case None
  assume "really_dumb_tracker k n duration cb self w = (r, self', w')"
  with None show ?thesis by (simp add: really_dumb_tracker_def)
next
  case (Some voc)
  assume run: "really_dumb_tracker k n duration cb self w = (r, self', w')"
  show ?thesis
  proof (cases "t0 self")
    case None
    with run Some show ?thesis
      by (auto simp: really_dumb_tracker_def time_time_def Let_def)
  next
    case t: (Some t0v)
    obtain r1 w1 where tl: "tracker_loop k n duration cb t0v voc (Isc self) (dwell_time self)
          \<lparr>Impp_l = Impp self, Vmpp_l = Vmpp self, dV_l = voc / 301, q_l = [],
           run_time = clock w (ticks w) - t0v\<rparr> (w\<lparr>ticks := Suc (ticks w)\<rparr>) = (r1, w1)"
      by force
    from tracker_loop_prefix [OF tl] have "prefix (calls w) (calls w1)" by simp
    moreover from run Some t tl have "w' = w1"
      by (auto simp: really_dumb_tracker_def time_time_def Let_def
          split: option.splits sum.splits)
    ultimately show ?thesis by simp
  qed
qed

lemma launch_tracker_no_attribute:
  assumes "Voc self = Some voc" "current_compliance self = None"
  shows "launch_tracker k n duration cb NPLC self w
     = (Some (Inl AttributeError), seed_Vmpp voc (self\<lparr>t0 := Some (clock w (ticks w))\<rparr>),
        w\<lparr>ticks := Suc (ticks w)\<rparr>)"
  using assms by (simp add: launch_tracker_def time_time_def seed_Vmpp_def Let_def)

lemma launch_tracker_log:
  assumes "Voc self = Some voc" "current_compliance self = Some cc"
  shows "\<exists>rest. calls (snd (snd (launch_tracker k n duration cb NPLC self w)))
     = calls w @ (if NPLC \<noteq> - 1 then [SetNPLC NPLC] else [])
         @ [SetupDC True (case cc of None \<Rightarrow> 0.04 | Some c \<Rightarrow> c)
              (case Vmpp self of None \<Rightarrow> 0.7 * voc | Some v \<Rightarrow> v) ''a'',
            WriteCmd '':arm:source immediate'',
            MeasureUntil (initial_soak duration) False] @ rest"
proof -
  let ?w1 = "w\<lparr>ticks := Suc (ticks w)\<rparr>"
  let ?self2 = "seed_Vmpp voc (self\<lparr>t0 := Some (clock w (ticks w))\<rparr>)"
  let ?comp = "case cc of None \<Rightarrow> 0.04 | Some c \<Rightarrow> c"
  let ?vm = "case Vmpp self of None \<Rightarrow> 0.7 * voc | Some v \<Rightarrow> v"
  let ?w2 = "if NPLC \<noteq> - 1 then sm_setNPLC NPLC ?w1 else ?w1"
  let ?w4 = "sm_write '':arm:source immediate'' (sm_setupDC True ?comp ?vm ''a'' ?w2)"
  let ?w5 = "snd (sm_measureUntil (initial_soak duration) False ?w4)"
  let ?q = "fst (sm_measureUntil (initial_soak duration) False ?w4)"
  let ?log = "calls w @ (if NPLC \<noteq> - 1 then [SetNPLC NPLC] else [])
         @ [SetupDC True ?comp ?vm ''a'', WriteCmd '':arm:source immediate'',
            MeasureUntil (initial_soak duration) False]"
  have cc2: "current_compliance ?self2 = Some cc"
    using assms(2) by (simp add: seed_Vmpp_def)
  have vm2: "(case Vmpp ?self2 of Some v \<Rightarrow> v | None \<Rightarrow> 0.7 * voc) = ?vm"
    by (simp add: seed_Vmpp_def split: option.splits)
  have w5: "calls ?w5 = ?log"
    by (simp add: sm_measureUntil_def sm_write_def sm_setupDC_def sm_setNPLC_def)
  show ?thesis
  proof (cases ?q)
    case Nil
    then have "launch_tracker k n duration cb NPLC self w = (Some (Inl IndexError), ?self2, ?w5)"
      using assms(1) cc2 vm2
      by (simp add: launch_tracker_def time_time_def Let_def split_beta)
    with w5 show ?thesis by simp
  next
    case (Cons m ms)
    obtain r4 self4 w6 where
      rdt: "really_dumb_tracker k n duration cb (after_soak ?q cc ?self2) ?w5 = (r4, self4, w6)"
      by (metis prod_cases3)
    from really_dumb_tracker_prefix [OF rdt] obtain rest where
      rest: "calls w6 = calls ?w5 @ rest" by (auto simp: prefix_def)
    have "calls (snd (snd (launch_tracker k n duration cb NPLC self w))) = calls w6"
      using assms(1) cc2 vm2 Cons rdt
      by (auto simp: launch_tracker_def time_time_def Let_def split_beta
          split: option.splits sum.splits)
    with rest w5 show ?thesis by simp
  qed
qed

text \<open>
  On a tracker that carries the attribute \<open>current_compliance\<close>, the first burst the
  instrument is asked for, after its configuration, is the soak of lines 69 to 75:
  \<open>0.2 * duration\<close> seconds when \<open>duration \<le> 10\<close>, 10 seconds otherwise.
\<close>

lemma soak_burst_with_attribute:
  assumes "Voc self = Some voc" "current_compliance self = Some cc"
  shows "(duration \<le> 10 \<longrightarrow> initial_soak duration = 0.2 * duration)
       \<and> (10 < duration \<longrightarrow> initial_soak duration = 10)
       \<and> (\<exists>comp vm rest.
               calls (snd (snd (launch_tracker k n duration cb NPLC self w)))
                 = calls w @ (if NPLC \<noteq> - 1 then [SetNPLC NPLC] else [])
                     @ [SetupDC True comp vm ''a'', WriteCmd '':arm:source immediate'',
                        MeasureUntil (if duration \<le> 10 then 0.2 * duration else 10) False]
                     @ rest)"
proof -
  have soak: "initial_soak duration = (if duration \<le> 10 then 0.2 * duration else 10)"
    by (simp add: initial_soak_def)
  from launch_tracker_log [OF assms, of k n duration cb NPLC w]
  show ?thesis using soak by (auto simp del: append.simps)
qed

lemmas launch_eval = launch_tracker_def really_dumb_tracker_def time_time_def seed_Vmpp_def
  initial_soak_def after_soak_def sm_setNPLC_def sm_setupDC_def sm_write_def
  sm_measureUntil_def sm_setOutput_def Let_def

lemma soak_burst_run:
  "launch_tracker 0 0 4 False (- 1)
            (new_mppt\<lparr>Voc := Some 0.6, current_compliance := Some None\<rparr>) bench_world
      = (Some (Inr [bench_sample]),
         new_mppt\<lparr>Voc := Some 0.6, current_compliance := Some (Some 0.072),
           t0 := Some 0, Vmpp := Some 0.42, Impp := Some (- 0.036), Isc := Some (- 0.0396)\<rparr>,
         bench_world\<lparr>ticks := 3, n_bursts := 1,
           calls := [SetupDC True 0.04 0.42 ''a'', WriteCmd '':arm:source immediate'',
                     MeasureUntil 0.8 False]\<rparr>)"
  by (simp add: launch_eval new_mppt_def bench_world_def bench_sample_def)

text \<open>
  C7. A tracker as constructed, given only \<open>Voc = 0.6\<close> and run for a duration of 4
  seconds: the soak of lines 69 to 75 would last \<open>initial_soak 4 = 0.8\<close> seconds, but
  line 57 raises \<open>AttributeError\<close> before the instrument is configured. The log of
  instrument calls is unchanged: no soak burst is issued, of 0.8 seconds or of any other
  length.
\<close>

theorem launch_tracker_fresh_no_soak:
  "initial_soak 4 = 0.8
   \<and> launch_tracker k n 4 False (- 1) (new_mppt\<lparr>Voc := Some 0.6\<rparr>) w
       = (Some (Inl AttributeError),
          new_mppt\<lparr>Voc := Some 0.6, Vmpp := Some 0.42, t0 := Some (clock w (ticks w))\<rparr>,
          w\<lparr>ticks := Suc (ticks w)\<rparr>)
   \<and> calls (snd (snd (launch_tracker k n 4 False (- 1) (new_mppt\<lparr>Voc := Some 0.6\<rparr>) w)))
       = calls w
   \<and> launch_tracker k n 4 False (- 1) (new_mppt\<lparr>Voc := Some 0.6\<rparr>) bench_world
       = (Some (Inl AttributeError),
          new_mppt\<lparr>Voc := Some 0.6, Vmpp := Some 0.42, t0 := Some 0\<rparr>,
          bench_world\<lparr>ticks := 1\<rparr>)
   \<and> MeasureUntil 0.8 False \<notin> set (calls (snd (snd
         (launch_tracker k n 4 False (- 1) (new_mppt\<lparr>Voc := Some 0.6\<rparr>) bench_world))))"
  by (simp add: launch_tracker_def new_mppt_def time_time_def seed_Vmpp_def initial_soak_def
      bench_world_def)

text \<open>
  C9. For every run entered with \<open>Voc\<close> known: if \<open>Vmpp\<close> is unset, \<open>launch_tracker\<close>
  seeds it to exactly \<open>0.7 * Voc\<close>, and if it is set it is kept. This happens before the
  initial soak: the instrument is configured at that \<open>Vmpp\<close> and then the soak burst is
  issued (or, when the tracker has no attribute \<open>current_compliance\<close>, the run raises with
  the seeded \<open>Vmpp\<close> already stored).
\<close>

theorem Vmpp_seeded_before_soak:
  assumes "Voc self = Some voc"
  shows "(Vmpp self = None \<longrightarrow> Vmpp (seed_Vmpp voc self) = Some (0.7 * voc))
       \<and> (Vmpp self \<noteq> None \<longrightarrow> seed_Vmpp voc self = self)
       \<and> ((current_compliance self = None
            \<and> fst (launch_tracker k n duration cb NPLC self w) = Some (Inl AttributeError)
            \<and> Vmpp (fst (snd (launch_tracker k n duration cb NPLC self w)))
                = Some (case Vmpp self of None \<Rightarrow> 0.7 * voc | Some v \<Rightarrow> v))
          \<or> (\<exists>comp rest.
               calls (snd (snd (launch_tracker k n duration cb NPLC self w)))
                 = calls w @ (if NPLC \<noteq> - 1 then [SetNPLC NPLC] else [])
                     @ [SetupDC True comp (case Vmpp self of None \<Rightarrow> 0.7 * voc | Some v \<Rightarrow> v)
                          ''a'',
                        WriteCmd '':arm:source immediate'',
                        MeasureUntil (initial_soak duration) False]
                     @ rest))"
proof -
  have seed: "(Vmpp self = None \<longrightarrow> Vmpp (seed_Vmpp voc self) = Some (0.7 * voc))
       \<and> (Vmpp self \<noteq> None \<longrightarrow> seed_Vmpp voc self = self)"
    by (simp add: seed_Vmpp_def)
  show ?thesis
  proof (cases "current_compliance self")
    case None
    from launch_tracker_no_attribute [OF assms None, of k n duration cb NPLC w]
    show ?thesis using None seed by (simp add: seed_Vmpp_def split: option.splits)
  next
    case (Some cc)
    from launch_tracker_log [OF assms Some, of k n duration cb NPLC w]
    show ?thesis using seed by (auto simp del: append.simps)
  qed
qed

theorem Vmpp_seeded_before_soak_witness:
  "Voc (new_mppt\<lparr>Voc := Some 0.6, current_compliance := Some None\<rparr>) = Some 0.6
   \<and> Vmpp (new_mppt\<lparr>Voc := Some 0.6, current_compliance := Some None\<rparr>) = None
   \<and> Vmpp (seed_Vmpp 0.6 (new_mppt\<lparr>Voc := Some 0.6, current_compliance := Some None\<rparr>))
       = Some 0.42
   \<and> calls (snd (snd (launch_tracker 0 0 30 False (- 1)
            (new_mppt\<lparr>Voc := Some 0.6, current_compliance := Some None\<rparr>) bench_world)))
       = [SetupDC True 0.04 0.42 ''a'', WriteCmd '':arm:source immediate'',
          MeasureUntil 10 False]
   \<and> seed_Vmpp 0.6 (new_mppt\<lparr>Voc := Some 0.6, Vmpp := Some 0.5\<rparr>)
       = new_mppt\<lparr>Voc := Some 0.6, Vmpp := Some 0.5\<rparr>"
proof -
  have h: "Voc (new_mppt\<lparr>Voc := Some 0.6, current_compliance := Some None\<rparr>) = Some 0.6"
    by simp
  have none: "Vmpp (new_mppt\<lparr>Voc := Some 0.6, current_compliance := Some None\<rparr>) = None"
    by (simp add: new_mppt_def)
  have h2: "Voc (new_mppt\<lparr>Voc := Some 0.6, Vmpp := Some 0.5\<rparr>) = Some 0.6"
    by simp
  have run: "calls (snd (snd (launch_tracker 0 0 30 False (- 1)
            (new_mppt\<lparr>Voc := Some 0.6, current_compliance := Some None\<rparr>) bench_world)))
       = [SetupDC True 0.04 0.42 ''a'', WriteCmd '':arm:source immediate'',
          MeasureUntil 10 False]"
    by (simp add: launch_eval new_mppt_def bench_world_def bench_sample_def)
  from Vmpp_seeded_before_soak [OF h, of 0 0 30 False "- 1" bench_world] none
  have a: "Vmpp (seed_Vmpp 0.6 (new_mppt\<lparr>Voc := Some 0.6, current_compliance := Some None\<rparr>))
       = Some (0.7 * 0.6)" by blast
  from Vmpp_seeded_before_soak [OF h2, of 0 0 30 False "- 1" bench_world]
  have b: "seed_Vmpp 0.6 (new_mppt\<lparr>Voc := Some 0.6, Vmpp := Some 0.5\<rparr>)
       = new_mppt\<lparr>Voc := Some 0.6, Vmpp := Some 0.5\<rparr>" by simp
  from a have "Vmpp (seed_Vmpp 0.6 (new_mppt\<lparr>Voc := Some 0.6, current_compliance := Some None\<rparr>))
       = Some 0.42" by simp
  with h none run b show ?thesis by blast
qed

section \<open>Properties of the dwell phase\<close>

lemma tracker_loop_break:
  assumes "run_time vars < duration" "Impp_l vars = Some impp" "Vmpp_l vars = Some vmpp0"
    "vmpp0 \<noteq> 0" "isc = Some iscv"
    "exploration_scan k impp vmpp0 voc iscv (dV_l vars) (q_l vars) w0 = (Some (Inr s), w)"
    "select_mpp (v_explore s) (i_explore s) = Inr (vmpp, im)"
    "duration - (clock w (ticks w) - t0v) \<le> 0"
  shows "tracker_loop k (Suc n) duration cb t0v voc isc dwell_t vars w0
     = (Some (Inr \<lparr>Impp_l = Some im, Vmpp_l = Some vmpp, dV_l = dV s, q_l = q_deque s,
                   run_time = clock w (ticks w) - t0v\<rparr>),
        w\<lparr>ticks := Suc (ticks w)\<rparr>)"
  using assms by (simp add: dwell_phase_def time_time_def Let_def)

lemma tracker_loop_dwell:
  assumes "run_time vars < duration" "Impp_l vars = Some impp" "Vmpp_l vars = Some vmpp0"
    "vmpp0 \<noteq> 0" "isc = Some iscv"
    "exploration_scan k impp vmpp0 voc iscv (dV_l vars) (q_l vars) w0 = (Some (Inr s), w)"
    "select_mpp (v_explore s) (i_explore s) = Inr (vmpp, im)"
    "dwell_phase duration cb t0v dwell_t vmpp w = (Inr (Dwelt im2 dq rt), w2)"
  shows "tracker_loop k (Suc n) duration cb t0v voc isc dwell_t vars w0
     = tracker_loop k n duration cb t0v voc isc dwell_t
         \<lparr>Impp_l = Some im2, Vmpp_l = Some vmpp, dV_l = dV s, q_l = q_deque s @ dq,
          run_time = rt\<rparr> w2"
  using assms by simp

text \<open>
  C8. For every dwell phase reached with \<open>timeLeft = duration - elapsed run time\<close>: if
  \<open>timeLeft \<le> 0\<close> the dwell is skipped with no instrument call and the outer loop is left
  (the tracker returns the estimate of the scan at once); otherwise the instrument is set
  to \<open>Vmpp\<close>, the burst lasts \<open>min dwellTime timeLeft\<close>, and after the burst \<open>Impp\<close> is the
  current of the last sample collected, with which the next pass of the loop starts. A
  burst that returns no sample makes line 211 raise \<open>IndexError\<close>.
\<close>

theorem dwell_phase_correct:
  "(duration - (clock w (ticks w) - t0v) \<le> 0 \<longrightarrow>
      dwell_phase duration cb t0v dwell_t vmpp w
        = (Inr (Break (clock w (ticks w) - t0v)), w\<lparr>ticks := Suc (ticks w)\<rparr>)
      \<and> calls (snd (dwell_phase duration cb t0v dwell_t vmpp w)) = calls w
      \<and> (run_time vars < duration \<and> Impp_l vars = Some impp \<and> Vmpp_l vars = Some vmpp0
            \<and> vmpp0 \<noteq> 0 \<and> isc = Some iscv
            \<and> exploration_scan k impp vmpp0 voc iscv (dV_l vars) (q_l vars) w0
                 = (Some (Inr s), w)
            \<and> select_mpp (v_explore s) (i_explore s) = Inr (vmpp, im)
            \<longrightarrow> tracker_loop k (Suc n) duration cb t0v voc isc dwell_t vars w0
                  = (Some (Inr \<lparr>Impp_l = Some im, Vmpp_l = Some vmpp, dV_l = dV s,
                                q_l = q_deque s, run_time = clock w (ticks w) - t0v\<rparr>),
                     w\<lparr>ticks := Suc (ticks w)\<rparr>)))
   \<and> (0 < duration - (clock w (ticks w) - t0v) \<longrightarrow>
        calls (snd (dwell_phase duration cb t0v dwell_t vmpp w))
          = calls w @ [SetOutput vmpp,
                       MeasureUntil (min dwell_t (duration - (clock w (ticks w) - t0v))) cb]
      \<and> (bursts w (n_bursts w) = [] \<longrightarrow>
            fst (dwell_phase duration cb t0v dwell_t vmpp w) = Inl IndexError)
      \<and> (bursts w (n_bursts w) \<noteq> [] \<longrightarrow>
            fst (dwell_phase duration cb t0v dwell_t vmpp w)
              = Inr (Dwelt (current (last (bursts w (n_bursts w)))) (bursts w (n_bursts w))
                      (clock w (Suc (ticks w)) - t0v))
          \<and> (run_time vars < duration \<and> Impp_l vars = Some impp
                \<and> Vmpp_l vars = Some vmpp0 \<and> vmpp0 \<noteq> 0 \<and> isc = Some iscv
                \<and> exploration_scan k impp vmpp0 voc iscv (dV_l vars) (q_l vars) w0
                     = (Some (Inr s), w)
                \<and> select_mpp (v_explore s) (i_explore s) = Inr (vmpp, im)
                \<longrightarrow> tracker_loop k (Suc n) duration cb t0v voc isc dwell_t vars w0
                      = tracker_loop k n duration cb t0v voc isc dwell_t
                          \<lparr>Impp_l = Some (current (last (bursts w (n_bursts w)))),
                           Vmpp_l = Some vmpp, dV_l = dV s,
                           q_l = q_deque s @ bursts w (n_bursts w),
                           run_time = clock w (Suc (ticks w)) - t0v\<rparr>
                          (snd (dwell_phase duration cb t0v dwell_t vmpp w)))))"
proof (intro conjI impI)
  assume skip: "duration - (clock w (ticks w) - t0v) \<le> 0"
  then show "dwell_phase duration cb t0v dwell_t vmpp w
        = (Inr (Break (clock w (ticks w) - t0v)), w\<lparr>ticks := Suc (ticks w)\<rparr>)"
    by (simp add: dwell_phase_def time_time_def Let_def)
  then show "calls (snd (dwell_phase duration cb t0v dwell_t vmpp w)) = calls w" by simp
  assume "run_time vars < duration \<and> Impp_l vars = Some impp \<and> Vmpp_l vars = Some vmpp0
            \<and> vmpp0 \<noteq> 0 \<and> isc = Some iscv
            \<and> exploration_scan k impp vmpp0 voc iscv (dV_l vars) (q_l vars) w0
                 = (Some (Inr s), w)
            \<and> select_mpp (v_explore s) (i_explore s) = Inr (vmpp, im)"
  then have f: "run_time vars < duration" "Impp_l vars = Some impp" "Vmpp_l vars = Some vmpp0"
    "vmpp0 \<noteq> 0" "isc = Some iscv"
    "exploration_scan k impp vmpp0 voc iscv (dV_l vars) (q_l vars) w0 = (Some (Inr s), w)"
    "select_mpp (v_explore s) (i_explore s) = Inr (vmpp, im)"
    by blast+
  show "tracker_loop k (Suc n) duration cb t0v voc isc dwell_t vars w0
                  = (Some (Inr \<lparr>Impp_l = Some im, Vmpp_l = Some vmpp, dV_l = dV s,
                                q_l = q_deque s, run_time = clock w (ticks w) - t0v\<rparr>),
                     w\<lparr>ticks := Suc (ticks w)\<rparr>)"
    by (rule tracker_loop_break [OF f skip])
next
  assume left: "0 < duration - (clock w (ticks w) - t0v)"
  then show "calls (snd (dwell_phase duration cb t0v dwell_t vmpp w))
          = calls w @ [SetOutput vmpp,
                       MeasureUntil (min dwell_t (duration - (clock w (ticks w) - t0v))) cb]"
    using dwell_phase_calls [of duration cb t0v dwell_t vmpp w] by (simp add: prod_eq_iff)
  {
    assume "bursts w (n_bursts w) = []"
    with left show "fst (dwell_phase duration cb t0v dwell_t vmpp w) = Inl IndexError"
      by (simp add: dwell_phase_def time_time_def sm_measureUntil_def sm_setOutput_def Let_def)
  }
  assume ne: "bursts w (n_bursts w) \<noteq> []"
  with left show dw: "fst (dwell_phase duration cb t0v dwell_t vmpp w)
              = Inr (Dwelt (current (last (bursts w (n_bursts w)))) (bursts w (n_bursts w))
                      (clock w (Suc (ticks w)) - t0v))"
    by (simp add: dwell_phase_def time_time_def sm_measureUntil_def sm_setOutput_def Let_def
        split: list.splits)
  assume a: "run_time vars < duration \<and> Impp_l vars = Some impp
                \<and> Vmpp_l vars = Some vmpp0 \<and> vmpp0 \<noteq> 0 \<and> isc = Some iscv
                \<and> exploration_scan k impp vmpp0 voc iscv (dV_l vars) (q_l vars) w0
                     = (Some (Inr s), w)
                \<and> select_mpp (v_explore s) (i_explore s) = Inr (vmpp, im)"
  then have f: "run_time vars < duration" "Impp_l vars = Some impp" "Vmpp_l vars = Some vmpp0"
    "vmpp0 \<noteq> 0" "isc = Some iscv"
    "exploration_scan k impp vmpp0 voc iscv (dV_l vars) (q_l vars) w0 = (Some (Inr s), w)"
    "select_mpp (v_explore s) (i_explore s) = Inr (vmpp, im)"
    by blast+
  have d: "dwell_phase duration cb t0v dwell_t vmpp w
      = (Inr (Dwelt (current (last (bursts w (n_bursts w)))) (bursts w (n_bursts w))
                      (clock w (Suc (ticks w)) - t0v)),
         snd (dwell_phase duration cb t0v dwell_t vmpp w))"
    using dw by (simp add: prod_eq_iff)
  show "tracker_loop k (Suc n) duration cb t0v voc isc dwell_t vars w0
                      = tracker_loop k n duration cb t0v voc isc dwell_t
                          \<lparr>Impp_l = Some (current (last (bursts w (n_bursts w)))),
                           Vmpp_l = Some vmpp, dV_l = dV s,
                           q_l = q_deque s @ bursts w (n_bursts w),
                           run_time = clock w (Suc (ticks w)) - t0v\<rparr>
                          (snd (dwell_phase duration cb t0v dwell_t vmpp w))"
    by (rule tracker_loop_dwell [OF f d])
qed

theorem dwell_phase_correct_witness:
  "(0::real) < 30 - (clock bench_world (ticks bench_world) - 0)
   \<and> calls (snd (dwell_phase 30 False 0 10 0.42 bench_world))
       = [SetOutput 0.42, MeasureUntil 10 False]
   \<and> fst (dwell_phase 30 False 0 10 0.42 bench_world) = Inr (Dwelt (- 0.036) [bench_sample] 60)
   \<and> 30 - (clock (bench_world\<lparr>ticks := 1\<rparr>) (ticks (bench_world\<lparr>ticks := 1\<rparr>)) - 0) \<le> (0::real)
   \<and> dwell_phase 30 False 0 10 0.42 (bench_world\<lparr>ticks := 1\<rparr>)
       = (Inr (Break 60), bench_world\<lparr>ticks := 2\<rparr>)
   \<and> tracker_loop 1 (Suc 0) 1 False (- 1) 0.602 (Some (- 0.04)) 10
         \<lparr>Impp_l = Some (- 0.003), Vmpp_l = Some 0.6, dV_l = 0.602 / 301, q_l = [],
          run_time = 0.5\<rparr> noisy_world
       = (Some (Inr \<lparr>Impp_l = Some (- 0.00302), Vmpp_l = Some 0.604, dV_l = 0.002,
                     q_l = [\<lparr>voltage = 0.604, current = - 0.00302, timestamp = 0, status = 0\<rparr>],
                     run_time = 1\<rparr>),
          noisy_world\<lparr>ticks := 1, n_measure := 1, calls := [SetOutput 0.6, Measure]\<rparr>)"
proof -
  have left: "(0::real) < 30 - (clock bench_world (ticks bench_world) - 0)"
    by (simp add: bench_world_def)
  have ne: "bursts bench_world (n_bursts bench_world) \<noteq> []"
    by (simp add: bench_world_def)
  have skip: "30 - (clock (bench_world\<lparr>ticks := 1\<rparr>) (ticks (bench_world\<lparr>ticks := 1\<rparr>)) - 0)
                \<le> (0::real)"
    by (simp add: bench_world_def)
  from dwell_phase_correct [where duration = 30 and w = bench_world and ?t0v = 0
      and cb = False and dwell_t = 10 and vmpp = "0.42"] left ne
  have a: "calls (snd (dwell_phase 30 False 0 10 0.42 bench_world))
          = calls bench_world @ [SetOutput 0.42,
               MeasureUntil (min 10 (30 - (clock bench_world (ticks bench_world) - 0))) False]"
    and b: "fst (dwell_phase 30 False 0 10 0.42 bench_world)
              = Inr (Dwelt (current (last (bursts bench_world (n_bursts bench_world))))
                      (bursts bench_world (n_bursts bench_world))
                      (clock bench_world (Suc (ticks bench_world)) - 0))"
    by blast+
  from dwell_phase_correct [where duration = 30 and w = "bench_world\<lparr>ticks := 1\<rparr>"
      and ?t0v = 0 and cb = False and dwell_t = 10 and vmpp = "0.42"] skip
  have c: "dwell_phase 30 False 0 10 0.42 (bench_world\<lparr>ticks := 1\<rparr>)
        = (Inr (Break (clock (bench_world\<lparr>ticks := 1\<rparr>) (ticks (bench_world\<lparr>ticks := 1\<rparr>)) - 0)),
           bench_world\<lparr>ticks := 1, ticks := Suc (ticks (bench_world\<lparr>ticks := 1\<rparr>))\<rparr>)"
    by blast
  from a have a': "calls (snd (dwell_phase 30 False 0 10 0.42 bench_world))
       = [SetOutput 0.42, MeasureUntil 10 False]"
    by (simp add: bench_world_def)
  from b have b': "fst (dwell_phase 30 False 0 10 0.42 bench_world)
       = Inr (Dwelt (- 0.036) [bench_sample] 60)"
    by (simp add: bench_world_def bench_sample_def)
  from c have c': "dwell_phase 30 False 0 10 0.42 (bench_world\<lparr>ticks := 1\<rparr>)
       = (Inr (Break 60), bench_world\<lparr>ticks := 2\<rparr>)"
    by (simp add: bench_world_def)
  let ?vars = "\<lparr>Impp_l = Some (- 0.003), Vmpp_l = Some 0.6, dV_l = 0.602 / 301, q_l = [],
          run_time = 0.5\<rparr>"
  let ?s = "\<lparr>v_set = 0.602, dV = 0.002, highEdgeTouched = True, lowEdgeTouched = True,
                   i_explore = [- 0.003, - 0.00302],
                   v_explore = [0.6, 0.604],
                   q_deque = [\<lparr>voltage = 0.604, current = - 0.00302, timestamp = 0, status = 0\<rparr>]\<rparr>"
  let ?w = "noisy_world\<lparr>n_measure := 1, calls := [SetOutput 0.6, Measure]\<rparr>"
  have over: "1 - (clock ?w (ticks ?w) - (- 1)) \<le> (0::real)"
    by (simp add: noisy_world_def)
  have pre: "run_time ?vars < 1 \<and> Impp_l ?vars = Some (- 0.003) \<and> Vmpp_l ?vars = Some 0.6
       \<and> (0.6::real) \<noteq> 0 \<and> Some (- 0.04 :: real) = Some (- 0.04)
       \<and> exploration_scan 1 (- 0.003) 0.6 0.602 (- 0.04) (dV_l ?vars) (q_l ?vars) noisy_world
            = (Some (Inr ?s), ?w)
       \<and> select_mpp (v_explore ?s) (i_explore ?s) = Inr (0.604, - 0.00302)"
    using noisy_scan_run by (simp add: select_mpp_def power_of_def numpy_argmax_def)
  from dwell_phase_correct [where duration = 1 and w = ?w and ?t0v = "- 1" and vmpp = "0.604"
      and vars = ?vars and impp = "- 0.003" and ?vmpp0.0 = "0.6" and isc = "Some (- 0.04)"
      and iscv = "- 0.04" and k = 1 and voc = "0.602" and ?w0.0 = noisy_world and s = ?s
      and im = "- 0.00302" and n = 0 and cb = False and dwell_t = 10] over pre
  have d: "tracker_loop 1 (Suc 0) 1 False (- 1) 0.602 (Some (- 0.04)) 10 ?vars noisy_world
       = (Some (Inr \<lparr>Impp_l = Some (- 0.00302), Vmpp_l = Some 0.604, dV_l = dV ?s,
                     q_l = q_deque ?s, run_time = clock ?w (ticks ?w) - (- 1)\<rparr>),
          ?w\<lparr>ticks := Suc (ticks ?w)\<rparr>)"
    by blast
  from d have d': "tracker_loop 1 (Suc 0) 1 False (- 1) 0.602 (Some (- 0.04)) 10 ?vars noisy_world
       = (Some (Inr \<lparr>Impp_l = Some (- 0.00302), Vmpp_l = Some 0.604, dV_l = 0.002,
                     q_l = [\<lparr>voltage = 0.604, current = - 0.00302, timestamp = 0, status = 0\<rparr>],
                     run_time = 1\<rparr>),
          noisy_world\<lparr>ticks := 1, n_measure := 1, calls := [SetOutput 0.6, Measure]\<rparr>)"
    by (simp add: noisy_world_def)
  from left skip a' b' c' d' show ?thesis by blast
qed

end
